theory Spec2Isabelle
  imports Complex_Main "HOL-Library.AList" "HOL-Library.Log_Nat"
begin

section \<open>Course quality report: descriptive statistics\<close>

text \<open>
  The report of \<^verbatim>\<open>CourseQualityView\<close> (\<^verbatim>\<open>course_quality.py\<close>) summarises lists of
  numbers with \<^verbatim>\<open>_stats_dict\<close>. The numbers are block counts (Python ints) and video
  durations (Python floats); a number is embedded as the rational it denotes. The
  routines of numpy and scipy that \<^verbatim>\<open>_stats_dict\<close> calls are written out as those
  libraries compute them, numpy's in float64 arithmetic.
\<close>

record stats_summary =
  stat_min :: "rat option"
  stat_max :: "rat option"
  stat_mean :: "rat option"
  stat_median :: "rat option"
  stat_mode :: "rat option"

text \<open>
  \<^verbatim>\<open>np.around(x)\<close> with no decimals is C's \<^verbatim>\<open>rint\<close>: the nearest integer, and the even
  one of the two neighbours when \<open>x\<close> lies exactly half way between them.
\<close>

definition np_around :: "rat \<Rightarrow> int" where
  "np_around x =
     (let f = \<lfloor>x\<rfloor>; d = x - of_int f
      in if d < 1 / 2 then f
         else if 1 / 2 < d then f + 1
         else if even f then f else f + 1)"

text \<open>
  Float64 arithmetic (IEEE 754 binary64, rounding to nearest, ties to even): the result
  of an operation is the exact result rounded to a significand of 53 bits. \<open>binade x\<close>
  is the exponent \<open>e\<close> with \<open>2\<^sup>e \<le> |x| < 2\<^sup>e\<^sup>+\<^sup>1\<close>, and the float64 values around \<open>x\<close>
  are the multiples of \<open>2\<^sup>e\<^sup>-\<^sup>5\<^sup>2\<close>. The range of the exponent is not bounded here:
  overflow and subnormal numbers are outside the model.
\<close>

definition binade :: "rat \<Rightarrow> int" where
  "binade x =
     (if 1 \<le> \<bar>x\<bar> then bitlen \<lfloor>\<bar>x\<bar>\<rfloor> - 1
      else - bitlen (\<lceil>1 / \<bar>x\<bar>\<rceil> - 1))"

definition float64 :: "rat \<Rightarrow> rat" where
  "float64 x =
     (if x = 0 then 0
      else (let ulp = 2 powi (binade x - 52)
            in of_int (np_around (x / ulp)) * ulp))"

text \<open>
  \<^verbatim>\<open>np.mean(data)\<close>: the list becomes a float64 array, the elements are added up in
  float64, and the sum is divided by the number of elements. The additions are made from
  the left here. (Later numpy versions add long arrays in blocks. Whatever the order of
  the additions, the sum is the same when every partial sum is a float64 value, as it is
  for block counts.)
\<close>

definition np_sum :: "rat list \<Rightarrow> rat" where
  "np_sum data = foldl (\<lambda>s x. float64 (s + float64 x)) 0 data"

definition np_mean :: "rat list \<Rightarrow> rat" where
  "np_mean data = float64 (np_sum data / of_nat (length data))"

text \<open>
  \<^verbatim>\<open>np.median(data)\<close>: the data are sorted, and the result is \<^verbatim>\<open>np.mean\<close> of the middle
  element, or of the two middle elements when the length is even.
\<close>

definition np_median :: "rat list \<Rightarrow> rat" where
  "np_median data =
     (let s = sort data; n = length s
      in if odd n then np_mean [s ! (n div 2)]
         else np_mean [s ! (n div 2 - 1), s ! (n div 2)])"

text \<open>
  \<^verbatim>\<open>scipy.stats.mode(data, axis=None)\<close>: the loop of scipy over \<^verbatim>\<open>np.unique(data)\<close> (the
  distinct values in ascending order), which replaces the candidate only when a score
  occurs strictly more often than every score before it. It starts from a zero array.
\<close>

definition np_unique :: "rat list \<Rightarrow> rat list" where
  "np_unique a = sort (remdups a)"

definition mode_step :: "rat list \<Rightarrow> rat \<times> nat \<Rightarrow> rat \<Rightarrow> rat \<times> nat" where
  "mode_step a acc score =
     (let counts = length (filter (\<lambda>x. x = score) a)
      in (if snd acc < counts then score else fst acc, max counts (snd acc)))"

definition stats_mode :: "rat list \<Rightarrow> rat \<times> nat" where
  "stats_mode a = foldl (mode_step a) (0, 0) (np_unique a)"

text \<open>\<^verbatim>\<open>_stats_dict(data)\<close>, lines 236-252.\<close>

fun stats_dict :: "rat list \<Rightarrow> stats_summary" where
  "stats_dict [] =
     \<lparr>stat_min = None, stat_max = None, stat_mean = None, stat_median = None,
      stat_mode = None\<rparr>"
| "stats_dict (x # xs) =
     \<lparr>stat_min = Some (fold min xs x),
      stat_max = Some (fold max xs x),
      stat_mean = Some (of_int (np_around (np_mean (x # xs)))),
      stat_median = Some (of_int (np_around (np_median (x # xs)))),
      stat_mode = Some (fst (stats_mode (x # xs)))\<rparr>"

section \<open>Data model: keys, blocks, the document store\<close>

text \<open>
  A usage key locates one block of one course and carries the block's type. A block
  (\<^verbatim>\<open>XBlock\<close>) has the attributes the view reads. \<open>children = None\<close> is a block without
  a \<^verbatim>\<open>children\<close> attribute (\<^verbatim>\<open>hasattr(parent, 'children')\<close> is false).
\<close>

type_synonym course_key = string

record usage_key =
  course_key :: course_key
  block_type :: string
  block_id :: string

record xblock =
  location :: usage_key
  children :: "usage_key list option"
  visible_to_staff_only :: bool
  hide_from_toc :: bool
  graded :: bool
  highlights :: "string list"
  edx_video_id :: string
  self_paced :: bool
  highlights_enabled_for_messaging :: bool

text \<open>
  The modulestore is the list of the blocks it holds. \<^verbatim>\<open>store.get_item(usage_key)\<close>
  returns the block stored under the key and raises \<^verbatim>\<open>ItemNotFoundError\<close> when there is
  none; \<^verbatim>\<open>store.get_course(course_key)\<close> returns the course block or \<^verbatim>\<open>None\<close>;
  \<^verbatim>\<open>store.get_items(course_key, qualifiers={'category': c})\<close> returns every block of
  the course with that block type.
\<close>

datatype error =
    ItemNotFoundError usage_key
  | InvalidKeyError string
  | AttributeError

definition get_item :: "xblock list \<Rightarrow> usage_key \<Rightarrow> error + xblock" where
  "get_item store k =
     (case find (\<lambda>b. location b = k) store of
        None \<Rightarrow> Inl (ItemNotFoundError k)
      | Some b \<Rightarrow> Inr b)"

definition get_course :: "xblock list \<Rightarrow> course_key \<Rightarrow> xblock option" where
  "get_course store key =
     find (\<lambda>b. course_key (location b) = key \<and> block_type (location b) = ''course'') store"

definition get_items :: "xblock list \<Rightarrow> course_key \<Rightarrow> string \<Rightarrow> xblock list" where
  "get_items store key category =
     filter (\<lambda>b. course_key (location b) = key \<and> block_type (location b) = category) store"

text \<open>A record of the video pipeline (\<^verbatim>\<open>edxval\<close>), as \<^verbatim>\<open>get_videos_for_course\<close> yields it.\<close>

record val_video =
  val_edx_video_id :: string
  duration :: rat

text \<open>
  The request: the user and the query parameters. The services the view imports are
  collected in one record: the key parser, the permission check and the video pipeline.
\<close>

record request =
  user :: string
  query_params :: "string \<rightharpoonup> string"

record collaborators =
  from_string :: "string \<Rightarrow> course_key option"
  has_course_author_access :: "string \<Rightarrow> course_key \<Rightarrow> bool"
  get_videos_for_course :: "course_key \<Rightarrow> val_video list"

section \<open>Query parameters\<close>

text \<open>
  Modelled from the spec: \<^verbatim>\<open>get_bool_param(request, param_name, default)\<close> of
  \<^verbatim>\<open>views/utils.py\<close>, which is not among the sources. The spec has: "Query parameters
  are booleans, case-insensitively parsed from "true"/"false" (or absent = false), except
  \<^verbatim>\<open>all\<close> which, when true, forces every section on regardless of individual flags."
  The view passes \<^verbatim>\<open>False\<close> as the third argument for \<^verbatim>\<open>all\<close> and \<^verbatim>\<open>exclude_graded\<close>,
  and the value of \<^verbatim>\<open>all\<close> for the four parts. So the value is true when the third
  argument is true, whatever the parameter itself says, and otherwise it is the parsed
  parameter, false when the parameter is absent. The spec names no third kind of text;
  here any other text is taken like an absent parameter.
\<close>

definition lower :: "string \<Rightarrow> string" where
  "lower s =
     map (\<lambda>c. let n = (of_char c :: nat) in if 65 \<le> n \<and> n \<le> 90 then char_of (n + 32) else c) s"

definition parse_bool :: "string option \<Rightarrow> bool option" where
  "parse_bool v =
     (case v of
        None \<Rightarrow> None
      | Some s \<Rightarrow>
          if lower s = ''true'' then Some True
          else if lower s = ''false'' then Some False
          else None)"

definition get_bool_param :: "request \<Rightarrow> string \<Rightarrow> bool \<Rightarrow> bool" where
  "get_bool_param request param_name dflt =
     (if dflt then True
      else (case parse_bool (query_params request param_name) of
              None \<Rightarrow> False
            | Some b \<Rightarrow> b))"

text \<open>\<^verbatim>\<open>_required_course_depth\<close>, lines 119-127; \<open>None\<close> is the unbounded depth.\<close>

definition required_course_depth :: "request \<Rightarrow> bool \<Rightarrow> nat option" where
  "required_course_depth request all_requested =
     (if get_bool_param request ''units'' all_requested then None
      else if get_bool_param request ''subsections'' all_requested then None
      else if get_bool_param request ''sections'' all_requested then Some 1
      else Some 0)"

section \<open>Children, visibility and leaf blocks\<close>

text \<open>\<^verbatim>\<open>_get_children\<close>, lines 224-228.\<close>

definition get_children :: "xblock \<Rightarrow> usage_key list" where
  "get_children parent = (case children parent of None \<Rightarrow> [] | Some cs \<Rightarrow> cs)"

text \<open>
  The comprehension \<^verbatim>\<open>[store.get_item(k) for k in ...]\<close> of line 213: the first missing
  item raises.
\<close>

fun get_item_each :: "xblock list \<Rightarrow> usage_key list \<Rightarrow> error + xblock list" where
  "get_item_each store [] = Inr []"
| "get_item_each store (k # ks) =
     (case get_item store k of
        Inl e \<Rightarrow> Inl e
      | Inr b \<Rightarrow>
          (case get_item_each store ks of
             Inl e \<Rightarrow> Inl e
           | Inr bs \<Rightarrow> Inr (b # bs)))"

text \<open>\<^verbatim>\<open>_get_all_children\<close>, lines 211-218, and \<^verbatim>\<open>_get_visible_children\<close>, lines 220-222.\<close>

definition get_all_children :: "xblock list \<Rightarrow> xblock \<Rightarrow> error + xblock list \<times> xblock list" where
  "get_all_children store parent =
     (case get_item_each store (get_children parent) of
        Inl e \<Rightarrow> Inl e
      | Inr child_blocks \<Rightarrow>
          Inr (child_blocks,
               filter (\<lambda>s. \<not> visible_to_staff_only s \<and> \<not> hide_from_toc s) child_blocks))"

definition get_visible_children :: "xblock list \<Rightarrow> xblock \<Rightarrow> error + xblock list" where
  "get_visible_children store parent =
     (case get_all_children store parent of
        Inl e \<Rightarrow> Inl e
      | Inr (_, visible_chidren) \<Rightarrow> Inr visible_chidren)"

text \<open>\<^verbatim>\<open>_get_sections\<close>, lines 207-209 (the request cache does not change its value).\<close>

definition get_sections :: "xblock list \<Rightarrow> xblock \<Rightarrow> error + xblock list \<times> xblock list" where
  "get_sections store course = get_all_children store course"

text \<open>
  Modelled from the spec: \<^verbatim>\<open>traverse_pre_order(start_node, get_children, filter_func)\<close>
  of \<^verbatim>\<open>openedx.core.lib.graph_traversals\<close>, which is not among the sources. The spec's
  leaf collector "produces the pre-order traversal of the subtree rooted at node,
  restricted at each step to visible children", yields the nodes the filter accepts and
  "must visit every reachable visible leaf exactly once". It is the depth-first loop over
  a stack of nodes still to visit and the locations already visited. Its only caller
  passes \<^verbatim>\<open>self._get_visible_children\<close> for \<^verbatim>\<open>get_children\<close>, which is fixed here; a
  store read that raises ends the traversal with that error.
\<close>

function traverse_pre_order ::
  "xblock list \<Rightarrow> (xblock \<Rightarrow> bool) \<Rightarrow> xblock list \<Rightarrow> usage_key list \<Rightarrow> error + xblock list" where
  "traverse_pre_order store filter_func [] visited = Inr []"
| "traverse_pre_order store filter_func (node # stack) visited =
     (if location node \<in> set visited then traverse_pre_order store filter_func stack visited
      else
        (case get_visible_children store node of
           Inl e \<Rightarrow> Inl e
         | Inr cs \<Rightarrow>
             (case traverse_pre_order store filter_func
                     (filter (\<lambda>c. location c \<notin> set visited) cs @ stack)
                     (location node # visited) of
                Inl e \<Rightarrow> Inl e
              | Inr out \<Rightarrow> Inr (if filter_func node then node # out else out))))"
  by pat_completeness auto

termination traverse_pre_order
proof (relation "(\<lambda>(store, f, stack, visited).
          card ((location ` set store \<union> location ` set stack) - set visited))
        <*mlex*> measure (\<lambda>(store, f, stack, visited). length stack)")
  show "wf ((\<lambda>(store, f, stack, visited).
          card ((location ` set store \<union> location ` set stack) - set visited))
        <*mlex*> measure (\<lambda>(store, f, stack, visited). length stack))"
    by (simp add: wf_mlex)
next
  fix store :: "xblock list" and filter_func :: "xblock \<Rightarrow> bool" and node stack visited
  assume "location node \<in> set visited"
  then have "(location ` set store \<union> location ` set stack) - set visited
      = (location ` set store \<union> location ` set (node # stack)) - set visited"
    by auto
  then show "((store, filter_func, stack, visited), (store, filter_func, node # stack, visited))
      \<in> (\<lambda>(store, f, stack, visited).
          card ((location ` set store \<union> location ` set stack) - set visited))
        <*mlex*> measure (\<lambda>(store, f, stack, visited). length stack)"
    by (simp add: mlex_iff)
next
  fix store :: "xblock list" and filter_func :: "xblock \<Rightarrow> bool" and node stack visited cs
  assume unvisited: "location node \<notin> set visited"
    and cs: "get_visible_children store node = Inr cs"
  have item: "b \<in> set store" if "get_item store k = Inr b" for k b
    using that by (auto simp add: get_item_def find_Some_iff split: option.splits)
  have each: "set bs \<subseteq> set store" if "get_item_each store ks = Inr bs" for ks bs
    using that by (induction ks arbitrary: bs) (auto split: sum.splits dest: item)
  have "set cs \<subseteq> set store"
    using cs each
    by (fastforce simp add: get_visible_children_def get_all_children_def split: sum.splits)
  then have "(location ` set store
        \<union> location ` set (filter (\<lambda>c. location c \<notin> set visited) cs @ stack))
        - set (location node # visited)
      \<subset> (location ` set store \<union> location ` set (node # stack)) - set visited"
    using unvisited by auto
  then have "card ((location ` set store
        \<union> location ` set (filter (\<lambda>c. location c \<notin> set visited) cs @ stack))
        - set (location node # visited))
      < card ((location ` set store \<union> location ` set (node # stack)) - set visited)"
    by (intro psubset_card_mono) auto
  then show "((store, filter_func, filter (\<lambda>c. location c \<notin> set visited) cs @ stack,
        location node # visited), (store, filter_func, node # stack, visited))
      \<in> (\<lambda>(store, f, stack, visited).
          card ((location ` set store \<union> location ` set stack) - set visited))
        <*mlex*> measure (\<lambda>(store, f, stack, visited). length stack)"
    by (simp add: mlex_iff)
qed

text \<open>
  \<^verbatim>\<open>_get_leaf_blocks\<close>, lines 230-234: the traversal from the unit that keeps the blocks
  without children.
\<close>

definition get_leaf_blocks :: "xblock list \<Rightarrow> xblock \<Rightarrow> error + xblock list" where
  "get_leaf_blocks store unit =
     traverse_pre_order store (\<lambda>b. length (get_children b) = 0) [unit] []"

section \<open>Subsections and units\<close>

text \<open>
  \<^verbatim>\<open>_get_subsections_and_units\<close>, lines 179-205. A Python dictionary is an association
  list that \<^verbatim>\<open>d[k] = v\<close> updates; the three nested loops are three recursive functions,
  each passing on the dictionary it fills and stopping at the first store read that
  raises. \<open>unit_dict_of\<close> is the body of the loop over subsections, lines 194-202.
\<close>

record unit_info =
  num_leaf_blocks :: nat
  leaf_block_types :: "string set"

type_synonym unit_dict = "(usage_key \<times> unit_info) list"

type_synonym subsection_dict = "(usage_key \<times> unit_dict) list"

fun unit_loop :: "xblock list \<Rightarrow> xblock list \<Rightarrow> unit_dict \<Rightarrow> error + unit_dict" where
  "unit_loop store [] unit_dict = Inr unit_dict"
| "unit_loop store (unit # visible_units) unit_dict =
     (case get_leaf_blocks store unit of
        Inl e \<Rightarrow> Inl e
      | Inr leaf_blocks \<Rightarrow>
          unit_loop store visible_units
            (AList.update (location unit)
               \<lparr>num_leaf_blocks = length leaf_blocks,
                leaf_block_types = set (map (\<lambda>block. block_type (location block)) leaf_blocks)\<rparr>
               unit_dict))"

definition unit_dict_of :: "xblock list \<Rightarrow> xblock \<Rightarrow> error + unit_dict" where
  "unit_dict_of store subsection =
     (case get_visible_children store subsection of
        Inl e \<Rightarrow> Inl e
      | Inr visible_units \<Rightarrow> unit_loop store visible_units [])"

fun subsection_loop ::
  "xblock list \<Rightarrow> xblock list \<Rightarrow> subsection_dict \<Rightarrow> error + subsection_dict" where
  "subsection_loop store [] subsection_dict = Inr subsection_dict"
| "subsection_loop store (subsection # visible_subsections) subsection_dict =
     (case unit_dict_of store subsection of
        Inl e \<Rightarrow> Inl e
      | Inr unit_dict \<Rightarrow>
          subsection_loop store visible_subsections
            (AList.update (location subsection) unit_dict subsection_dict))"

text \<open>Lines 188-191: the visible subsections of a section that the loop goes through.\<close>

definition kept_subsections :: "xblock list \<Rightarrow> request \<Rightarrow> xblock \<Rightarrow> error + xblock list" where
  "kept_subsections store request section =
     (case get_visible_children store section of
        Inl e \<Rightarrow> Inl e
      | Inr visible_subsections \<Rightarrow>
          Inr (if get_bool_param request ''exclude_graded'' False
               then filter (\<lambda>s. \<not> graded s) visible_subsections
               else visible_subsections))"

fun section_loop ::
  "xblock list \<Rightarrow> request \<Rightarrow> xblock list \<Rightarrow> subsection_dict \<Rightarrow> error + subsection_dict" where
  "section_loop store request [] subsection_dict = Inr subsection_dict"
| "section_loop store request (section # visible_sections) subsection_dict =
     (case kept_subsections store request section of
        Inl e \<Rightarrow> Inl e
      | Inr visible_subsections \<Rightarrow>
          (case subsection_loop store visible_subsections subsection_dict of
             Inl e \<Rightarrow> Inl e
           | Inr subsection_dict' \<Rightarrow>
               section_loop store request visible_sections subsection_dict'))"

definition get_subsections_and_units ::
  "xblock list \<Rightarrow> xblock \<Rightarrow> request \<Rightarrow> error + subsection_dict" where
  "get_subsections_and_units store course request =
     (case get_sections store course of
        Inl e \<Rightarrow> Inl e
      | Inr (_, visible_sections) \<Rightarrow> section_loop store request visible_sections [])"

section \<open>The four parts of the report\<close>

record sections_quality_t =
  sec_total_number :: nat
  sec_total_visible :: nat
  number_with_highlights :: nat
  highlights_enabled :: bool

record subsections_quality_t =
  sub_total_visible :: nat
  num_with_one_block_type :: nat
  num_block_types :: stats_summary

record units_quality_t =
  unit_total_visible :: nat
  num_blocks :: stats_summary

record videos_quality_t =
  vid_total_number :: nat
  num_mobile_encoded :: nat
  num_with_val_id :: nat
  durations :: stats_summary

text \<open>\<^verbatim>\<open>_sections_quality\<close>, lines 129-137.\<close>

definition sections_quality :: "xblock list \<Rightarrow> xblock \<Rightarrow> error + sections_quality_t" where
  "sections_quality store course =
     (case get_sections store course of
        Inl e \<Rightarrow> Inl e
      | Inr (all_sections, visible_sections) \<Rightarrow>
          (let sections_with_highlights = filter (\<lambda>s. highlights s \<noteq> []) visible_sections
           in Inr \<lparr>sec_total_number = length all_sections,
                   sec_total_visible = length visible_sections,
                   number_with_highlights = length sections_with_highlights,
                   highlights_enabled = highlights_enabled_for_messaging course\<rparr>))"

text \<open>
  \<^verbatim>\<open>_subsections_quality\<close>, lines 139-153. The loop of lines 142-147 gives every key of
  the dictionary the size of the union of its units' block types.
\<close>

definition num_block_types_per_subsection ::
  "subsection_dict \<Rightarrow> (usage_key \<times> nat) list" where
  "num_block_types_per_subsection subsection_unit_dict =
     map (\<lambda>(subsection_key, unit_dict).
            (subsection_key,
             card (fold (\<union>) (map (\<lambda>(_, unit_info). leaf_block_types unit_info) unit_dict) {})))
         subsection_unit_dict"

definition subsections_quality_of :: "subsection_dict \<Rightarrow> subsections_quality_t" where
  "subsections_quality_of subsection_unit_dict =
     (let num_block_types_per_subsection_dict =
            num_block_types_per_subsection subsection_unit_dict
      in \<lparr>sub_total_visible = length num_block_types_per_subsection_dict,
          num_with_one_block_type =
            length (filter (\<lambda>s. s = 1) (map snd num_block_types_per_subsection_dict)),
          num_block_types =
            stats_dict (map (\<lambda>(_, n). of_nat n) num_block_types_per_subsection_dict)\<rparr>)"

definition subsections_quality ::
  "xblock list \<Rightarrow> xblock \<Rightarrow> request \<Rightarrow> error + subsections_quality_t" where
  "subsections_quality store course request =
     (case get_subsections_and_units store course request of
        Inl e \<Rightarrow> Inl e
      | Inr subsection_unit_dict \<Rightarrow> Inr (subsections_quality_of subsection_unit_dict))"

text \<open>\<^verbatim>\<open>_units_quality\<close>, lines 155-165.\<close>

definition units_quality :: "xblock list \<Rightarrow> xblock \<Rightarrow> request \<Rightarrow> error + units_quality_t" where
  "units_quality store course request =
     (case get_subsections_and_units store course request of
        Inl e \<Rightarrow> Inl e
      | Inr subsection_unit_dict \<Rightarrow>
          (let num_leaf_blocks_per_unit =
                 concat (map (\<lambda>(_, unit_dict).
                                map (\<lambda>(_, unit_info). num_leaf_blocks unit_info) unit_dict)
                             subsection_unit_dict)
           in Inr \<lparr>unit_total_visible = length num_leaf_blocks_per_unit,
                   num_blocks = stats_dict (map of_nat num_leaf_blocks_per_unit)\<rparr>))"

text \<open>\<^verbatim>\<open>_videos_quality\<close>, lines 167-177; \<^verbatim>\<open>course.id\<close> is the course key of the block.\<close>

definition videos_quality :: "collaborators \<Rightarrow> xblock list \<Rightarrow> xblock \<Rightarrow> videos_quality_t" where
  "videos_quality env store course =
     (let video_blocks_in_course = get_items store (course_key (location course)) ''video'';
          videos_in_val = get_videos_for_course env (course_key (location course));
          video_durations = map duration videos_in_val
      in \<lparr>vid_total_number = length video_blocks_in_course,
          num_mobile_encoded = length videos_in_val,
          num_with_val_id = length (filter (\<lambda>v. edx_video_id v \<noteq> []) video_blocks_in_course),
          durations = stats_dict video_durations\<rparr>)"

section \<open>The view\<close>

text \<open>
  \<^verbatim>\<open>CourseQualityView.get\<close>, lines 80-117. The result is the list of the calls the body of
  \<^verbatim>\<open>get\<close> makes on the modulestore, and either the exception that ended the request or
  the response: the report, or the error response of \<^verbatim>\<open>make_error_response\<close>. A course
  key the store does not hold makes \<^verbatim>\<open>get_course\<close> return \<^verbatim>\<open>None\<close>, and line 98 raises.
\<close>

record quality_report =
  is_self_paced :: bool
  sections :: "sections_quality_t option"
  subsections :: "subsections_quality_t option"
  units :: "units_quality_t option"
  videos :: "videos_quality_t option"

datatype http_response =
    Response quality_report
  | ErrorResponse nat string string

datatype store_call =
    Modulestore
  | BulkOperations course_key
  | GetCourse course_key "nat option"

definition when_requested :: "bool \<Rightarrow> error + 'a \<Rightarrow> error + 'a option" where
  "when_requested requested r =
     (if requested then (case r of Inl e \<Rightarrow> Inl e | Inr v \<Rightarrow> Inr (Some v)) else Inr None)"

definition build_response ::
  "collaborators \<Rightarrow> xblock list \<Rightarrow> request \<Rightarrow> bool \<Rightarrow> xblock \<Rightarrow> error + http_response" where
  "build_response env store request all_requested course =
     (case when_requested (get_bool_param request ''sections'' all_requested)
             (sections_quality store course) of
        Inl e \<Rightarrow> Inl e
      | Inr sections_part \<Rightarrow>
     (case when_requested (get_bool_param request ''subsections'' all_requested)
             (subsections_quality store course request) of
        Inl e \<Rightarrow> Inl e
      | Inr subsections_part \<Rightarrow>
     (case when_requested (get_bool_param request ''units'' all_requested)
             (units_quality store course request) of
        Inl e \<Rightarrow> Inl e
      | Inr units_part \<Rightarrow>
     (case when_requested (get_bool_param request ''videos'' all_requested)
             (Inr (videos_quality env store course)) of
        Inl e \<Rightarrow> Inl e
      | Inr videos_part \<Rightarrow>
          Inr (Response \<lparr>is_self_paced = self_paced course,
                         sections = sections_part,
                         subsections = subsections_part,
                         units = units_part,
                         videos = videos_part\<rparr>)))))"

definition get ::
  "collaborators \<Rightarrow> xblock list \<Rightarrow> request \<Rightarrow> string
     \<Rightarrow> store_call list \<times> (error + http_response)" where
  "get env store request course_id =
     (let all_requested = get_bool_param request ''all'' False
      in case from_string env course_id of
           None \<Rightarrow> ([], Inl (InvalidKeyError course_id))
         | Some key \<Rightarrow>
             if \<not> has_course_author_access env (user request) key
             then ([],
                   Inr (ErrorResponse 403
                          ''The user requested does not have the required permissions.''
                          ''user_mismatch''))
             else
               ([Modulestore, BulkOperations key,
                 GetCourse key (required_course_depth request all_requested)],
                case get_course store key of
                  None \<Rightarrow> Inl AttributeError
                | Some course \<Rightarrow> build_response env store request all_requested course))"

section \<open>Notions of the specification\<close>

text \<open>
  The two rounding rules the specification speaks of, written from its words and not
  from the code: rounding to the nearest integer with a tie going away from zero, and
  being the nearest integer with a tie going to the even neighbour.
\<close>

definition round_half_away_from_zero :: "rat \<Rightarrow> int" where
  "round_half_away_from_zero q = (if q < 0 then - \<lfloor>- q + 1 / 2\<rfloor> else \<lfloor>q + 1 / 2\<rfloor>)"

definition nearest_ties_to_even :: "rat \<Rightarrow> int \<Rightarrow> bool" where
  "nearest_ties_to_even q z =
     (\<bar>q - of_int z\<bar> \<le> 1 / 2 \<and> (\<bar>q - of_int z\<bar> = 1 / 2 \<longrightarrow> even z))"

text \<open>
  The arithmetic mean and the median of a sequence, in exact arithmetic, and the
  sequences of block counts: non-negative integers whose sum is below \<open>2\<^sup>5\<^sup>2\<close>. A
  float64 value is a number that float64 rounding leaves as it is: every Python float
  is one, and every integer below \<open>2\<^sup>5\<^sup>3\<close>.
\<close>

definition exact_mean :: "rat list \<Rightarrow> rat" where
  "exact_mean data = sum_list data / of_nat (length data)"

definition exact_median :: "rat list \<Rightarrow> rat" where
  "exact_median data =
     (let s = sort data; n = length s
      in if odd n then s ! (n div 2)
         else (s ! (n div 2 - 1) + s ! (n div 2)) / 2)"

definition block_counts :: "rat list \<Rightarrow> bool" where
  "block_counts data =
     ((\<forall>x\<in>set data. 0 \<le> x \<and> of_int \<lfloor>x\<rfloor> = x) \<and> sum_list data < 2 ^ 52)"

definition float64_values :: "rat list \<Rightarrow> bool" where
  "float64_values data = (\<forall>x\<in>set data. float64 x = x)"

text \<open>
  Whether a part of the report counts as requested, written from the words of the claim
  on the course depth: its own parameter parses to true, or \<^verbatim>\<open>all\<close> does, which is
  treated as requesting everything.
\<close>

definition part_requested :: "request \<Rightarrow> string \<Rightarrow> bool" where
  "part_requested request part =
     (parse_bool (query_params request ''all'') = Some True
      \<or> parse_bool (query_params request part) = Some True)"

text \<open>
  What it means that an entry of the dictionary of \<^verbatim>\<open>_get_subsections_and_units\<close> was
  computed from blocks that are not staff-only: the key of a unit is the location of a
  stored unit that is not staff-only, and its numbers are those of leaf blocks none of
  which is staff-only; the key of a subsection is the location of a stored subsection
  that is not staff-only, and its units are such units.
\<close>

definition counted_unit :: "xblock list \<Rightarrow> usage_key \<Rightarrow> unit_info \<Rightarrow> bool" where
  "counted_unit store k info =
     (\<exists>unit leaf_blocks.
        get_item store k = Inr unit \<and> \<not> visible_to_staff_only unit
        \<and> get_leaf_blocks store unit = Inr leaf_blocks
        \<and> info = \<lparr>num_leaf_blocks = length leaf_blocks,
                   leaf_block_types = set (map (\<lambda>block. block_type (location block)) leaf_blocks)\<rparr>
        \<and> (\<forall>b\<in>set leaf_blocks. \<not> visible_to_staff_only b))"

definition counted_subsection :: "xblock list \<Rightarrow> usage_key \<Rightarrow> unit_dict \<Rightarrow> bool" where
  "counted_subsection store k unit_dict =
     (\<exists>subsection.
        get_item store k = Inr subsection \<and> \<not> visible_to_staff_only subsection
        \<and> unit_dict_of store subsection = Inr unit_dict
        \<and> (\<forall>(u, info)\<in>set unit_dict. counted_unit store u info))"

section \<open>An example course\<close>

text \<open>
  A course with a visible section \<open>s1\<close> and a staff-only section \<open>s2\<close>. Section \<open>s1\<close>
  has the subsections \<open>q1\<close> (two units), \<open>q2\<close> (graded, one unit) and \<open>q3\<close> (no unit);
  section \<open>s2\<close> has the subsection \<open>q4\<close> (no unit), which is not staff-only itself.
  Unit \<open>u1\<close> holds the videos \<open>v1\<close> and \<open>v2\<close>, the second staff-only. The video
  pipeline knows three videos of the course. The user \<open>staff\<close> is the only author.
\<close>

definition demo_key :: "string \<Rightarrow> string \<Rightarrow> usage_key" where
  "demo_key t i = \<lparr>course_key = ''demo'', block_type = t, block_id = i\<rparr>"

definition demo_block :: "usage_key \<Rightarrow> usage_key list option \<Rightarrow> xblock" where
  "demo_block k cs =
     \<lparr>location = k, children = cs, visible_to_staff_only = False, hide_from_toc = False,
      graded = False, highlights = [], edx_video_id = [], self_paced = False,
      highlights_enabled_for_messaging = False\<rparr>"

definition demo_course :: xblock where
  "demo_course =
     demo_block (demo_key ''course'' ''c'')
       (Some [demo_key ''chapter'' ''s1'', demo_key ''chapter'' ''s2''])"

definition demo_section :: xblock where
  "demo_section =
     demo_block (demo_key ''chapter'' ''s1'')
       (Some [demo_key ''sequential'' ''q1'', demo_key ''sequential'' ''q2'',
              demo_key ''sequential'' ''q3''])"

definition demo_empty_subsection :: xblock where
  "demo_empty_subsection = demo_block (demo_key ''sequential'' ''q3'') (Some [])"

definition demo_staff_section :: xblock where
  "demo_staff_section =
     (demo_block (demo_key ''chapter'' ''s2'') (Some [demo_key ''sequential'' ''q4'']))
       \<lparr>visible_to_staff_only := True\<rparr>"

definition demo_staff_video :: xblock where
  "demo_staff_video = (demo_block (demo_key ''video'' ''v2'') None)\<lparr>visible_to_staff_only := True\<rparr>"

definition demo_unreached_subsection :: xblock where
  "demo_unreached_subsection = demo_block (demo_key ''sequential'' ''q4'') (Some [])"

definition demo_store :: "xblock list" where
  "demo_store =
     [demo_course,
      demo_section,
      demo_staff_section,
      demo_block (demo_key ''sequential'' ''q1'')
        (Some [demo_key ''vertical'' ''u1'', demo_key ''vertical'' ''u2'']),
      (demo_block (demo_key ''sequential'' ''q2'') (Some [demo_key ''vertical'' ''u3'']))
        \<lparr>graded := True\<rparr>,
      demo_empty_subsection,
      demo_unreached_subsection,
      demo_block (demo_key ''vertical'' ''u1'')
        (Some [demo_key ''video'' ''v1'', demo_key ''video'' ''v2'']),
      demo_block (demo_key ''vertical'' ''u2'') (Some [demo_key ''html'' ''h1'']),
      demo_block (demo_key ''vertical'' ''u3'') (Some [demo_key ''problem'' ''p1'']),
      (demo_block (demo_key ''video'' ''v1'') None)\<lparr>edx_video_id := ''val1''\<rparr>,
      demo_staff_video,
      demo_block (demo_key ''html'' ''h1'') None,
      demo_block (demo_key ''problem'' ''p1'') None]"

definition demo_env :: collaborators where
  "demo_env =
     \<lparr>from_string = Some,
      has_course_author_access = (\<lambda>u k. u = ''staff''),
      get_videos_for_course =
        (\<lambda>k. [\<lparr>val_edx_video_id = ''val1'', duration = 10\<rparr>,
              \<lparr>val_edx_video_id = ''val2'', duration = 25 / 2\<rparr>,
              \<lparr>val_edx_video_id = ''val3'', duration = 7\<rparr>])\<rparr>"

definition demo_request :: "string \<Rightarrow> (string \<times> string) list \<Rightarrow> request" where
  "demo_request u ps = \<lparr>user = u, query_params = map_of ps\<rparr>"

section \<open>Rounding, median and mode\<close>

lemma np_around_floor: "\<lfloor>x\<rfloor> \<le> np_around x"
  by (simp add: np_around_def Let_def)

lemma np_around_ceiling: "np_around x \<le> \<lceil>x\<rceil>"
proof -
  have "x - of_int \<lfloor>x\<rfloor> \<noteq> 0 \<Longrightarrow> \<lfloor>x\<rfloor> + 1 \<le> \<lceil>x\<rceil>"
    by linarith
  moreover have "\<lfloor>x\<rfloor> \<le> \<lceil>x\<rceil>" by linarith
  ultimately show ?thesis
    by (auto simp add: np_around_def Let_def)
qed

lemma np_around_nearest: "\<bar>x - of_int (np_around x)\<bar> \<le> 1 / 2"
proof -
  have "of_int \<lfloor>x\<rfloor> \<le> x" "x < of_int \<lfloor>x\<rfloor> + 1" by linarith+
  then show ?thesis
    by (auto simp add: np_around_def Let_def abs_le_iff)
qed

lemma np_around_tie_even:
  assumes "\<bar>x - of_int (np_around x)\<bar> = 1 / 2"
  shows "even (np_around x)"
proof -
  define d where "d = x - of_int \<lfloor>x\<rfloor>"
  have fl: "0 \<le> d" "d < 1" unfolding d_def by linarith+
  consider "d < 1 / 2" | "1 / 2 < d" | "d = 1 / 2" by linarith
  then show ?thesis
  proof cases
    case 1
    then have "np_around x = \<lfloor>x\<rfloor>" by (simp add: np_around_def Let_def d_def)
    with assms 1 fl show ?thesis by (simp add: d_def)
  next
    case 2
    then have "np_around x = \<lfloor>x\<rfloor> + 1" by (simp add: np_around_def Let_def d_def)
    with assms 2 fl show ?thesis by (simp add: d_def abs_if split: if_splits)
  next
    case 3
    then show ?thesis by (simp add: np_around_def Let_def d_def)
  qed
qed

lemma np_around_of_int: "np_around (of_int z) = z"
  by (simp add: np_around_def Let_def)

lemma fold_min_Min: "fold min xs (x::rat) = Min (set (x # xs))"
  using Min.set_eq_fold [of x xs] by simp

lemma fold_max_Max: "fold max xs (x::rat) = Max (set (x # xs))"
  using Max.set_eq_fold [of x xs] by simp

lemma np_around_ge_int: "of_int a \<le> x \<Longrightarrow> a \<le> np_around x"
  using np_around_floor [of x] by (meson le_floor_iff order_trans)

lemma np_around_le_int: "x \<le> of_int b \<Longrightarrow> np_around x \<le> b"
  using np_around_ceiling [of x] by (meson ceiling_le_iff order_trans)

lemma count_list_filter: "length (filter (\<lambda>x. x = s) a) = count_list a s"
  by (induction a) auto

lemma mode_step_eq:
  "mode_step a (m, c) s =
     (if c < count_list a s then (s, count_list a s) else (m, c))"
  by (auto simp add: mode_step_def Let_def count_list_filter)

lemma mode_loop_invariant:
  assumes "sorted ss" and "set ss \<subseteq> set a" and "ss \<noteq> []"
    and "foldl (mode_step a) (0, 0) ss = (m, c)"
  shows "m \<in> set ss \<and> count_list a m = c
         \<and> (\<forall>s\<in>set ss. count_list a s \<le> c)
         \<and> (\<forall>s\<in>set ss. count_list a s = c \<longrightarrow> m \<le> s)"
  using assms
proof (induction ss arbitrary: m c rule: rev_induct)
  case Nil
  then show ?case by simp
next
  case (snoc s ss)
  have s_in: "s \<in> set a" using snoc.prems(2) by simp
  then have pos: "0 < count_list a s" using count_list_0_iff [of a s] by simp
  show ?case
  proof (cases "ss = []")
    case True
    with snoc.prems(4) pos show ?thesis
      by (auto simp add: mode_step_eq)
  next
    case False
    obtain m' c' where acc: "foldl (mode_step a) (0, 0) ss = (m', c')"
      by (cases "foldl (mode_step a) (0, 0) ss")
    have srt: "sorted ss" and le_s: "\<forall>x\<in>set ss. x \<le> s"
      using snoc.prems(1) by (auto simp add: sorted_append)
    have sub: "set ss \<subseteq> set a" using snoc.prems(2) by simp
    from snoc.IH [OF srt sub False acc]
    have ih: "m' \<in> set ss" "count_list a m' = c'"
      "\<forall>x\<in>set ss. count_list a x \<le> c'"
      "\<forall>x\<in>set ss. count_list a x = c' \<longrightarrow> m' \<le> x"
      by auto
    have step: "(m, c) = (if c' < count_list a s then (s, count_list a s) else (m', c'))"
      using snoc.prems(4) acc by (simp add: mode_step_eq)
    show ?thesis
    proof (cases "c' < count_list a s")
      case True
      with step have "m = s" "c = count_list a s" by auto
      with True ih(3) show ?thesis by fastforce
    next
      case False
      with step have "m = m'" "c = c'" by auto
      with False ih le_s show ?thesis by auto
    qed
  qed
qed

lemma np_unique_props:
  "sorted (np_unique a)" "set (np_unique a) = set a" "(np_unique a = []) = (a = [])"
  unfolding np_unique_def by (simp_all add: sorted_sort) (metis set_empty set_remdups set_sort)

lemma stats_mode_correct:
  assumes "a \<noteq> []" and "stats_mode a = (m, c)"
  shows "m \<in> set a \<and> count_list a m = c
         \<and> (\<forall>s\<in>set a. count_list a s \<le> c)
         \<and> (\<forall>s\<in>set a. count_list a s = c \<longrightarrow> m \<le> s)"
proof -
  have "np_unique a \<noteq> []" using assms(1) by (simp add: np_unique_props)
  from mode_loop_invariant [OF np_unique_props(1) _ this, of a m c] assms(2)
  show ?thesis by (simp add: np_unique_props stats_mode_def)
qed

section \<open>Float64 rounding\<close>

lemma bitlen_pos: "0 < m \<Longrightarrow> 1 \<le> bitlen m"
  using bitlen_eq_zero_iff [of m] bitlen_nonneg [of m] by linarith

lemma binade_bounds:
  assumes "x \<noteq> 0"
  shows "2 powi binade x \<le> \<bar>x\<bar>" and "\<bar>x\<bar> < 2 powi (binade x + 1)"
proof -
  have "2 powi binade x \<le> \<bar>x\<bar> \<and> \<bar>x\<bar> < 2 powi (binade x + 1)"
  proof (cases "1 \<le> \<bar>x\<bar>")
    case True
    define m where "m = \<lfloor>\<bar>x\<bar>\<rfloor>"
    have m: "0 < m" using True unfolding m_def by linarith
    have b: "1 \<le> bitlen m" using m by (rule bitlen_pos)
    have bin: "binade x = bitlen m - 1" using True by (simp add: binade_def m_def)
    from bitlen_bounds [OF m] have lo: "(2::int) ^ nat (bitlen m - 1) \<le> m"
      and hi: "m < 2 ^ nat (bitlen m)" by auto
    have "(of_int ((2::int) ^ nat (bitlen m - 1)) :: rat) \<le> of_int m"
      using lo by (simp only: of_int_le_iff)
    also have "\<dots> \<le> \<bar>x\<bar>" unfolding m_def by linarith
    finally have 1: "2 powi binade x \<le> \<bar>x\<bar>"
      using b by (simp add: bin power_int_def)
    have "m + 1 \<le> 2 ^ nat (bitlen m)" using hi by linarith
    then have "(of_int (m + 1) :: rat) \<le> of_int ((2::int) ^ nat (bitlen m))"
      by (simp only: of_int_le_iff)
    moreover have "\<bar>x\<bar> < of_int (m + 1)" unfolding m_def by linarith
    ultimately have "\<bar>x\<bar> < of_int ((2::int) ^ nat (bitlen m))" by linarith
    then have 2: "\<bar>x\<bar> < 2 powi (binade x + 1)"
      using b by (simp add: bin power_int_def)
    from 1 2 show ?thesis ..
  next
    case False
    define y where "y = 1 / \<bar>x\<bar>"
    define c where "c = \<lceil>y\<rceil>"
    have xpos: "0 < \<bar>x\<bar>" using assms by simp
    have y1: "1 < y" using False xpos by (simp add: y_def)
    have c2: "0 < c - 1" using y1 unfolding c_def by linarith
    define k where "k = bitlen (c - 1)"
    have k1: "1 \<le> k" unfolding k_def using c2 by (rule bitlen_pos)
    have bin: "binade x = - k" using False by (simp add: binade_def k_def c_def y_def)
    from bitlen_bounds [OF c2] have lo: "(2::int) ^ nat (k - 1) \<le> c - 1"
      and hi: "c - 1 < 2 ^ nat k" by (auto simp add: k_def)
    have "c \<le> 2 ^ nat k" using hi by linarith
    then have "(of_int c :: rat) \<le> of_int ((2::int) ^ nat k)" by (simp only: of_int_le_iff)
    moreover have "y \<le> of_int c" unfolding c_def by linarith
    ultimately have "y \<le> of_int ((2::int) ^ nat k)" by linarith
    then have yk: "y \<le> 2 ^ nat k" by simp
    have "(of_int ((2::int) ^ nat (k - 1)) :: rat) \<le> of_int (c - 1)"
      using lo by (simp only: of_int_le_iff)
    moreover have "of_int (c - 1) < y" unfolding c_def by linarith
    ultimately have "of_int ((2::int) ^ nat (k - 1)) < y" by linarith
    then have ky: "2 ^ nat (k - 1) < y" by simp
    have x_eq: "\<bar>x\<bar> = 1 / y" using xpos by (simp add: y_def)
    have ypos: "0 < y" using y1 by linarith
    have "1 / (2 ^ nat k) \<le> 1 / y"
      using yk ypos by (intro divide_left_mono) auto
    then have 1: "2 powi binade x \<le> \<bar>x\<bar>"
      using k1 by (simp add: bin x_eq power_int_def field_simps)
    have "1 / y < 1 / (2 ^ nat (k - 1))"
      using ky ypos by (intro divide_strict_left_mono) auto
    moreover have "2 powi (binade x + 1) = (1::rat) / (2 ^ nat (k - 1))"
    proof (cases "k = 1")
      case True
      then show ?thesis by (simp add: bin)
    next
      case False
      with k1 have "- k + 1 < 0" "nat (k - 1) = nat (- (- k + 1))" by auto
      then show ?thesis by (simp add: bin power_int_def field_simps)
    qed
    ultimately have 2: "\<bar>x\<bar> < 2 powi (binade x + 1)" by (simp add: x_eq)
    from 1 2 show ?thesis ..
  qed
  then show "2 powi binade x \<le> \<bar>x\<bar>" and "\<bar>x\<bar> < 2 powi (binade x + 1)" by auto
qed

lemma binade_unique:
  assumes "2 powi e \<le> \<bar>x\<bar>" and "\<bar>x\<bar> < 2 powi (e + 1)"
  shows "binade x = e"
proof -
  have "(0::rat) < 2 powi e" by simp
  with assms(1) have "0 < \<bar>x\<bar>" by linarith
  then have x: "x \<noteq> 0" by simp
  note b = binade_bounds [OF x]
  have "\<not> binade x < e"
  proof
    assume "binade x < e"
    then have "binade x + 1 \<le> e" by simp
    then have "(2::rat) powi (binade x + 1) \<le> 2 powi e"
      by (intro power_int_increasing) auto
    with assms(1) b(2) show False by linarith
  qed
  moreover have "\<not> e < binade x"
  proof
    assume "e < binade x"
    then have "e + 1 \<le> binade x" by simp
    then have "(2::rat) powi (e + 1) \<le> 2 powi binade x"
      by (intro power_int_increasing) auto
    with assms(2) b(1) show False by linarith
  qed
  ultimately show ?thesis by linarith
qed

lemma float64_error:
  assumes "x \<noteq> 0"
  shows "\<bar>float64 x - x\<bar> \<le> 2 powi (binade x - 53)"
proof -
  define u :: rat where "u = 2 powi (binade x - 52)"
  have u: "0 < u" by (simp add: u_def)
  have half: "u / 2 = 2 powi (binade x - 53)"
    using power_int_diff [of "2::rat" "binade x - 52" 1] by (simp add: u_def)
  have fl: "float64 x = of_int (np_around (x / u)) * u"
    using assms by (simp add: float64_def Let_def u_def)
  have "float64 x - x = (of_int (np_around (x / u)) - x / u) * u"
    using u by (simp add: fl field_simps)
  then have "\<bar>float64 x - x\<bar> = \<bar>x / u - of_int (np_around (x / u))\<bar> * u"
    using u by (simp add: abs_mult abs_minus_commute)
  also have "\<dots> \<le> (1 / 2) * u"
    using np_around_nearest [of "x / u"] u by (intro mult_right_mono) auto
  finally show ?thesis using half by simp
qed

lemma float64_error_rel: "\<bar>float64 x - x\<bar> \<le> \<bar>x\<bar> / 2 ^ 53"
proof (cases "x = 0")
  case True
  then show ?thesis by (simp add: float64_def)
next
  case False
  have "(2::rat) powi (binade x - 53) = 2 powi binade x / 2 ^ 53"
    using power_int_diff [of "2::rat" "binade x" 53] by simp
  also have "\<dots> \<le> \<bar>x\<bar> / 2 ^ 53"
    using binade_bounds(1) [OF False] by (intro divide_right_mono) auto
  finally show ?thesis using float64_error [OF False] by linarith
qed

lemma float64_exact:
  assumes "x / 2 powi (binade x - 52) = of_int z"
  shows "float64 x = x"
proof (cases "x = 0")
  case True
  then show ?thesis by (simp add: float64_def)
next
  case False
  have "(0::rat) < 2 powi (binade x - 52)" by simp
  then have "of_int z * 2 powi (binade x - 52) = x"
    using assms by (simp add: field_simps)
  with False assms show ?thesis
    by (simp add: float64_def Let_def np_around_of_int)
qed

lemma float64_dyadic:
  assumes "x * 2 ^ j = of_int m" and "\<bar>x\<bar> < 2 ^ (53 - j)" and "j \<le> 53"
  shows "float64 x = x"
proof (cases "x = 0")
  case True
  then show ?thesis by (simp add: float64_def)
next
  case False
  define e where "e = binade x"
  have "(2::rat) powi e \<le> \<bar>x\<bar>" unfolding e_def using False by (rule binade_bounds)
  also have "\<bar>x\<bar> < 2 powi (int (53 - j))" using assms(2) by simp
  finally have "e < int (53 - j)"
    by (rule power_int_le_imp_less_exp [rotated]) auto
  then have e: "0 \<le> 52 - e - int j" using assms(3) by linarith
  have "x / 2 powi (e - 52) = x * 2 powi (52 - e)"
    using power_int_minus [of "2::rat" "52 - e"] by (simp add: field_simps)
  also have "(2::rat) powi (52 - e) = 2 powi (int j) * 2 powi (52 - e - int j)"
    using power_int_add [of "2::rat" "int j" "52 - e - int j"] by simp
  also have "x * (2 powi (int j) * 2 powi (52 - e - int j))
      = of_int m * 2 ^ nat (52 - e - int j)"
    using assms(1) e by (simp add: power_int_def)
  also have "\<dots> = of_int (m * 2 ^ nat (52 - e - int j))" by simp
  finally show ?thesis unfolding e_def by (rule float64_exact)
qed

lemma float64_of_int: "\<bar>k\<bar> < 2 ^ 53 \<Longrightarrow> float64 (of_int k) = of_int k"
proof -
  assume "\<bar>k\<bar> < 2 ^ 53"
  then have "\<bar>of_int k :: rat\<bar> < of_int (2 ^ 53)"
    by (simp only: of_int_abs [symmetric] of_int_less_iff)
  then show ?thesis
    using float64_dyadic [of "of_int k" 0 k] by simp
qed

lemma float64_half_int: "\<bar>m\<bar> < 2 ^ 53 \<Longrightarrow> float64 (of_int m / 2) = of_int m / 2"
proof -
  assume "\<bar>m\<bar> < 2 ^ 53"
  then have "\<bar>of_int m :: rat\<bar> < of_int (2 ^ 53)"
    by (simp only: of_int_abs [symmetric] of_int_less_iff)
  then have "\<bar>of_int m / 2 :: rat\<bar> < 2 ^ 52" by simp
  then show ?thesis
    using float64_dyadic [of "of_int m / 2" 1 m] by simp
qed

lemma np_around_half_floor:
  assumes "of_int \<lfloor>2 * x\<rfloor> \<noteq> 2 * x"
  shows "np_around x = (\<lfloor>2 * x\<rfloor> + 1) div 2"
proof -
  define f where "f = \<lfloor>x\<rfloor>"
  define d where "d = x - of_int f"
  have d: "0 \<le> d" "d < 1" unfolding d_def f_def by linarith+
  have x: "x = of_int f + d" by (simp add: d_def)
  have ne: "d \<noteq> 1 / 2"
  proof
    assume "d = 1 / 2"
    then have "2 * x = of_int (2 * f + 1)" by (simp add: x)
    then have "of_int \<lfloor>2 * x\<rfloor> = 2 * x" by (metis floor_of_int)
    with assms show False by simp
  qed
  show ?thesis
  proof (cases "d < 1 / 2")
    case True
    then have "\<lfloor>2 * x\<rfloor> = 2 * f" using d unfolding x by (intro floor_unique) auto
    moreover have "np_around x = f"
      using True by (simp add: np_around_def Let_def d_def f_def)
    ultimately show ?thesis by simp
  next
    case False
    with ne have gt: "1 / 2 < d" by simp
    then have "\<lfloor>2 * x\<rfloor> = 2 * f + 1" using d unfolding x by (intro floor_unique) auto
    moreover have "np_around x = f + 1"
      using gt by (simp add: np_around_def Let_def d_def f_def)
    ultimately show ?thesis by simp
  qed
qed

lemma float64_quotient_around:
  assumes "0 \<le> s" and "s < 2 ^ 52" and "0 < n"
  shows "np_around (float64 (of_int s / of_nat n)) = np_around (of_int s / of_nat n)"
proof -
  define x :: rat where "x = of_int s / of_nat n"
  define y where "y = float64 x"
  have npos: "(0::rat) < of_nat n" using assms(3) by simp
  have x0: "0 \<le> x" using assms(1) by (simp add: x_def)
  have xs: "x \<le> of_int s"
  proof -
    have "of_int s / of_nat n \<le> (of_int s / 1 :: rat)"
      using assms(1,3) by (intro divide_left_mono) auto
    then show ?thesis by (simp add: x_def)
  qed
  have s52: "(of_int s :: rat) < 2 ^ 52"
  proof -
    have "(of_int s :: rat) < of_int (2 ^ 52)" using assms(2) by (simp only: of_int_less_iff)
    then show ?thesis by simp
  qed
  show ?thesis
  proof (cases "of_int \<lfloor>2 * x\<rfloor> = 2 * x")
    case True
    define m where "m = \<lfloor>2 * x\<rfloor>"
    have m2: "of_int m = 2 * x" using True unfolding m_def .
    have xm: "x = of_int m / 2" using m2 by linarith
    have p53: "(2::rat) * 2 ^ 52 = 2 ^ 53" by simp
    have "(of_int m :: rat) < 2 ^ 53" using m2 xs s52 p53 by linarith
    then have "(of_int m :: rat) < of_int (2 ^ 53)" by simp
    then have "m < 2 ^ 53" by (simp only: of_int_less_iff)
    moreover have "0 \<le> m" using x0 by (simp add: m_def)
    ultimately have "\<bar>m\<bar> < 2 ^ 53" by simp
    then have "float64 x = x" unfolding xm by (rule float64_half_int)
    then show ?thesis by (simp add: x_def)
  next
    case False
    define j where "j = \<lfloor>2 * x\<rfloor>"
    have j: "of_int j < 2 * x" "2 * x < of_int j + 1"
      using False unfolding j_def by linarith+
    have x_pos: "0 < x" using False x0 by (cases "x = 0") auto
    have nx: "of_nat n * x = of_int s" using npos by (simp add: x_def)
    have gap_lo: "1 \<le> 2 * of_int s - of_nat n * (of_int j :: rat)"
    proof -
      have "of_nat n * (of_int j :: rat) < of_nat n * (2 * x)"
        using j(1) npos by (intro mult_strict_left_mono)
      then have "(of_int (int n * j) :: rat) < of_int (2 * s)"
        using nx by (simp add: algebra_simps)
      then have "int n * j < 2 * s" by (simp only: of_int_less_iff)
      then have "int n * j + 1 \<le> 2 * s" by simp
      then have "(of_int (int n * j + 1) :: rat) \<le> of_int (2 * s)" by (simp only: of_int_le_iff)
      then show ?thesis by simp
    qed
    have gap_hi: "1 \<le> of_nat n * (of_int j + 1 :: rat) - 2 * of_int s"
    proof -
      have "of_nat n * (2 * x) < of_nat n * (of_int j + 1 :: rat)"
        using j(2) npos by (intro mult_strict_left_mono)
      then have "(of_int (2 * s) :: rat) < of_int (int n * (j + 1))"
        using nx by (simp add: algebra_simps)
      then have "2 * s < int n * (j + 1)" by (simp only: of_int_less_iff)
      then have "2 * s + 1 \<le> int n * (j + 1)" by simp
      then have "(of_int (2 * s + 1) :: rat) \<le> of_int (int n * (j + 1))"
        by (simp only: of_int_le_iff)
      then show ?thesis by simp
    qed
    have lo: "of_int j / 2 + 1 / (2 * of_nat n) \<le> x"
    proof -
      have "of_int j / 2 + 1 / (2 * of_nat n)
          = (of_nat n * of_int j + 1) / (2 * of_nat n :: rat)"
        using npos by (simp add: field_simps)
      also have "\<dots> \<le> (2 * of_int s) / (2 * of_nat n)"
        using gap_lo npos by (intro divide_right_mono) auto
      also have "\<dots> = x" by (simp add: x_def)
      finally show ?thesis .
    qed
    have hi: "x \<le> (of_int j + 1) / 2 - 1 / (2 * of_nat n)"
    proof -
      have "x = (2 * of_int s) / (2 * of_nat n)" by (simp add: x_def)
      also have "\<dots> \<le> (of_nat n * (of_int j + 1) - 1) / (2 * of_nat n :: rat)"
        using gap_hi npos by (intro divide_right_mono) auto
      also have "\<dots> = (of_int j + 1) / 2 - 1 / (2 * of_nat n)"
        using npos by (simp add: field_simps)
      finally show ?thesis .
    qed
    have "\<bar>y - x\<bar> \<le> \<bar>x\<bar> / 2 ^ 53" unfolding y_def by (rule float64_error_rel)
    also have "\<bar>x\<bar> / 2 ^ 53 < 1 / (2 * of_nat n)"
    proof -
      have p53: "(2::rat) * 2 ^ 52 = 2 ^ 53" by simp
      have "x * (2 * of_nat n) = 2 * of_int s" using npos by (simp add: x_def)
      with s52 p53 have "x * (2 * of_nat n) < 2 ^ 53" by linarith
      then have "x / 2 ^ 53 < 1 / (2 * of_nat n)"
        using npos by (simp add: field_simps)
      then show ?thesis using x0 by simp
    qed
    finally have err: "\<bar>y - x\<bar> < 1 / (2 * of_nat n)" .
    have yj: "of_int j < 2 * y" "2 * y < of_int j + 1"
      using err lo hi by (auto simp add: abs_less_iff field_simps)
    have fy: "\<lfloor>2 * y\<rfloor> = j" using yj by (intro floor_unique) auto
    have "of_int \<lfloor>2 * y\<rfloor> \<noteq> 2 * y" using yj fy by simp
    then have "np_around y = (j + 1) div 2" using fy by (simp add: np_around_half_floor)
    moreover have "np_around x = (j + 1) div 2"
      using False by (simp add: np_around_half_floor j_def)
    ultimately show ?thesis by (simp add: y_def x_def)
  qed
qed

lemma float64_Ints:
  assumes "x \<in> \<int>" and "\<bar>x\<bar> < 2 ^ 53"
  shows "float64 x = x"
proof -
  from assms(1) obtain k where k: "x = of_int k" by (rule Ints_cases)
  have "\<bar>of_int k :: rat\<bar> < of_int (2 ^ 53)" using assms(2) by (simp add: k)
  then have "\<bar>k\<bar> < 2 ^ 53" by (simp only: of_int_abs [symmetric] of_int_less_iff)
  then show ?thesis unfolding k by (rule float64_of_int)
qed

lemma floor_fixed_Ints: "(of_int \<lfloor>x\<rfloor> = x) = (x \<in> \<int>)" for x :: rat
  by (metis Ints_cases Ints_of_int floor_of_int)

lemma block_counts_iff:
  "block_counts data = ((\<forall>x\<in>set data. 0 \<le> x \<and> x \<in> \<int>) \<and> sum_list data < 2 ^ 52)"
  unfolding block_counts_def floor_fixed_Ints ..

lemma sum_list_counts:
  "\<forall>x\<in>set xs. 0 \<le> x \<and> x \<in> \<int> \<Longrightarrow> 0 \<le> sum_list xs \<and> sum_list xs \<in> \<int>"
  for xs :: "rat list"
  by (induction xs) auto

lemma member_le_sum_list_rat:
  "\<forall>x\<in>set xs. 0 \<le> x \<Longrightarrow> x \<in> set xs \<Longrightarrow> x \<le> sum_list xs" for xs :: "rat list"
proof (induction xs)
  case Nil
  then show ?case by simp
next
  case (Cons a xs)
  have "0 \<le> sum_list xs" using Cons.prems(1) by (intro sum_list_nonneg) auto
  with Cons show ?case by auto
qed

lemma np_sum_snoc: "np_sum (xs @ [x]) = float64 (np_sum xs + float64 x)"
  by (simp add: np_sum_def)

lemma np_sum_exact:
  "\<forall>x\<in>set xs. 0 \<le> x \<and> x \<in> \<int> \<Longrightarrow> sum_list xs < 2 ^ 53 \<Longrightarrow> np_sum xs = sum_list xs"
proof (induction xs rule: rev_induct)
  case Nil
  then show ?case by (simp add: np_sum_def)
next
  case (snoc x xs)
  have all: "\<forall>y\<in>set xs. 0 \<le> y \<and> y \<in> \<int>" and x: "0 \<le> x" "x \<in> \<int>"
    using snoc.prems(1) by auto
  have s: "0 \<le> sum_list xs" "sum_list xs \<in> \<int>" using sum_list_counts [OF all] by auto
  have total: "sum_list xs + x < 2 ^ 53" using snoc.prems(2) by simp
  have "sum_list xs < 2 ^ 53" using total x(1) by linarith
  then have ih: "np_sum xs = sum_list xs" using snoc.IH all by simp
  have "\<bar>x\<bar> < 2 ^ 53" using total x(1) s(1) by linarith
  then have fx: "float64 x = x" using x(2) by (intro float64_Ints)
  have "sum_list xs + x \<in> \<int>" using s(2) x(2) by (rule Ints_add)
  moreover have "\<bar>sum_list xs + x\<bar> < 2 ^ 53" using total x(1) s(1) by linarith
  ultimately have "float64 (sum_list xs + x) = sum_list xs + x" by (rule float64_Ints)
  then show ?case by (simp add: np_sum_snoc ih fx)
qed

lemma np_mean_counts:
  assumes "block_counts data" and "data \<noteq> []"
  shows "np_around (np_mean data) = np_around (exact_mean data)"
proof -
  from assms(1) have all: "\<forall>x\<in>set data. 0 \<le> x \<and> x \<in> \<int>" and lt: "sum_list data < 2 ^ 52"
    by (auto simp add: block_counts_iff)
  have s: "0 \<le> sum_list data" "sum_list data \<in> \<int>" using sum_list_counts [OF all] by auto
  then obtain k where k: "sum_list data = of_int k" by (auto elim: Ints_cases)
  have k0: "0 \<le> k" using s(1) by (simp add: k)
  have "(of_int k :: rat) < of_int (2 ^ 52)" using lt by (simp add: k)
  then have k52: "k < 2 ^ 52" by (simp only: of_int_less_iff)
  have "sum_list data < 2 ^ 53" using lt by (rule less_trans) simp
  then have sum: "np_sum data = of_int k" using np_sum_exact [OF all] by (simp add: k)
  have n: "0 < length data" using assms(2) by simp
  show ?thesis
    using float64_quotient_around [OF k0 k52 n]
    by (simp add: np_mean_def exact_mean_def sum k)
qed

lemma np_mean_single:
  assumes "0 \<le> a" and "a \<in> \<int>" and "a < 2 ^ 52"
  shows "np_mean [a] = a"
proof -
  have "\<bar>a\<bar> < 2 ^ 53" using assms(1,3) by simp
  then have "float64 a = a" using assms(2) by (intro float64_Ints)
  then show ?thesis by (simp add: np_mean_def np_sum_def)
qed

lemma np_mean_pair:
  assumes "0 \<le> a" "a \<in> \<int>" "a < 2 ^ 52" and "0 \<le> b" "b \<in> \<int>" "b < 2 ^ 52"
  shows "np_mean [a, b] = (a + b) / 2"
proof -
  have lt: "a + b < 2 ^ 53" using assms(3,6) by simp
  have sum: "np_sum [a, b] = a + b"
    using np_sum_exact [of "[a, b]"] assms lt by simp
  have "a + b \<in> \<int>" using assms(2,5) by (rule Ints_add)
  then obtain m where m: "a + b = of_int m" by (rule Ints_cases)
  have "\<bar>of_int m :: rat\<bar> < of_int (2 ^ 53)" using lt assms(1,4) by (simp add: m [symmetric])
  then have "\<bar>m\<bar> < 2 ^ 53" by (simp only: of_int_abs [symmetric] of_int_less_iff)
  then have "float64 (of_int m / 2) = of_int m / 2" by (rule float64_half_int)
  then show ?thesis by (simp add: np_mean_def sum m)
qed

lemma np_median_counts:
  assumes "block_counts data" and "data \<noteq> []"
  shows "np_median data = exact_median data"
proof -
  from assms(1) have all: "\<forall>x\<in>set data. 0 \<le> x \<and> x \<in> \<int>" and lt: "sum_list data < 2 ^ 52"
    by (auto simp add: block_counts_iff)
  have elem: "0 \<le> sort data ! i \<and> sort data ! i \<in> \<int> \<and> sort data ! i < 2 ^ 52"
    if "i < length data" for i
  proof -
    have "sort data ! i \<in> set (sort data)" using that by (intro nth_mem) simp
    then have mem: "sort data ! i \<in> set data" by simp
    have "sort data ! i \<le> sum_list data"
      using all mem by (intro member_le_sum_list_rat) auto
    with all mem lt show ?thesis by auto
  qed
  let ?n = "length data"
  have n: "0 < ?n" using assms(2) by simp
  have mid: "?n div 2 < ?n" using n by simp
  have low: "?n div 2 - 1 < ?n" using n by linarith
  show ?thesis
    using elem [OF mid] elem [OF low]
    by (simp add: np_median_def exact_median_def Let_def np_mean_single np_mean_pair)
qed

lemma np_around_nearest_int: "\<bar>q - of_int (np_around q)\<bar> \<le> \<bar>q - of_int z\<bar>"
proof (cases "z = np_around q")
  case True
  then show ?thesis by simp
next
  case False
  then have "1 \<le> \<bar>z - np_around q\<bar>" by linarith
  then have "(of_int 1 :: rat) \<le> of_int \<bar>z - np_around q\<bar>" by (simp only: of_int_le_iff)
  then have "1 \<le> \<bar>(of_int z :: rat) - of_int (np_around q)\<bar>" by simp
  with np_around_nearest [of q] show ?thesis by linarith
qed

lemma float64_nearest_on_grid:
  assumes "x \<noteq> 0"
  shows "\<bar>x - float64 x\<bar> \<le> \<bar>x - of_int z * 2 powi (binade x - 52)\<bar>"
proof -
  define u :: rat where "u = 2 powi (binade x - 52)"
  have u: "0 < u" by (simp add: u_def)
  have fl: "float64 x = of_int (np_around (x / u)) * u"
    using assms by (simp add: float64_def Let_def u_def)
  have "x - float64 x = (x / u - of_int (np_around (x / u))) * u"
    using u by (simp add: fl field_simps)
  then have "\<bar>x - float64 x\<bar> = \<bar>x / u - of_int (np_around (x / u))\<bar> * u"
    using u by (simp add: abs_mult)
  also have "\<dots> \<le> \<bar>x / u - of_int z\<bar> * u"
    using np_around_nearest_int [of "x / u" z] u by (intro mult_right_mono) auto
  also have "\<dots> = \<bar>(x / u - of_int z) * u\<bar>" using u by (simp add: abs_mult)
  also have "(x / u - of_int z) * u = x - of_int z * u" using u by (simp add: field_simps)
  finally show ?thesis by (simp add: u_def)
qed

lemma float64_nearest:
  assumes "float64 f = f"
  shows "\<bar>x - float64 x\<bar> \<le> \<bar>x - f\<bar>"
proof (cases "x = 0")
  case True
  then show ?thesis by (simp add: float64_def)
next
  case x: False
  define e where "e = binade x"
  define u :: rat where "u = 2 powi (e - 52)"
  note grid = float64_nearest_on_grid [OF x, folded e_def u_def]
  show ?thesis
  proof (cases "f = 0")
    case True
    with grid [of 0] show ?thesis by simp
  next
    case f: False
    define ef where "ef = binade f"
    obtain mf where mf: "f = of_int mf * 2 powi (ef - 52)"
      using assms f by (metis ef_def float64_def)
    show ?thesis
    proof (cases "e \<le> ef")
      case True
      have "(2::rat) powi (ef - 52) = 2 powi (ef - e) * 2 powi (e - 52)"
        using power_int_add [of "2::rat" "ef - e" "e - 52"] by simp
      also have "(2::rat) powi (ef - e) = of_int (2 ^ nat (ef - e))"
        using True by (simp add: power_int_def)
      finally have "f = of_int (mf * 2 ^ nat (ef - e)) * u"
        by (simp add: mf u_def)
      with grid [of "mf * 2 ^ nat (ef - e)"] show ?thesis by (simp add: u_def)
    next
      case False
      then have "ef + 1 \<le> e" by simp
      then have "(2::rat) powi (ef + 1) \<le> 2 powi e" by (intro power_int_increasing) auto
      moreover have "\<bar>f\<bar> < 2 powi (ef + 1)" unfolding ef_def using f by (rule binade_bounds)
      ultimately have f_lt: "\<bar>f\<bar> < 2 powi e" by linarith
      have x_ge: "2 powi e \<le> \<bar>x\<bar>" unfolding e_def using x by (rule binade_bounds)
      have pe: "(2::rat) powi e = of_int (2 ^ 52) * u"
        using power_int_add [of "2::rat" 52 "e - 52"] by (simp add: u_def)
      have "\<bar>x - float64 x\<bar> \<le> \<bar>x\<bar> - 2 powi e"
      proof (cases "0 < x")
        case True
        have "\<bar>x - float64 x\<bar> \<le> \<bar>x - 2 powi e\<bar>"
          using grid [of "2 ^ 52"] pe by (simp add: u_def)
        with True x_ge show ?thesis by simp
      next
        case False
        with x have neg: "x < 0" by simp
        have "\<bar>x - float64 x\<bar> \<le> \<bar>x + 2 powi e\<bar>"
          using grid [of "- (2 ^ 52)"] pe by (simp add: u_def)
        with neg x_ge show ?thesis by simp
      qed
      also have "\<dots> < \<bar>x\<bar> - \<bar>f\<bar>" using f_lt by simp
      also have "\<dots> \<le> \<bar>x - f\<bar>" by simp
      finally show ?thesis by simp
    qed
  qed
qed

lemma float64_lower:
  assumes "float64 a = a" and "a \<le> x"
  shows "a \<le> float64 x"
  using float64_nearest [OF assms(1), of x] assms(2) by (simp add: abs_if split: if_splits)

lemma float64_upper:
  assumes "float64 b = b" and "x \<le> b"
  shows "float64 x \<le> b"
  using float64_nearest [OF assms(1), of x] assms(2) by (simp add: abs_if split: if_splits)

lemma binade_double:
  assumes "x \<noteq> 0"
  shows "binade (2 * x) = binade x + 1"
proof (rule binade_unique)
  have p1: "(2::rat) powi (binade x + 1) = 2 * 2 powi binade x"
    using power_int_add [of "2::rat" "binade x" 1] by simp
  have p2: "(2::rat) powi (binade x + 1 + 1) = 2 * 2 powi (binade x + 1)"
    using power_int_add [of "2::rat" "binade x + 1" 1] by simp
  have a: "\<bar>2 * x\<bar> = 2 * \<bar>x\<bar>" by (simp add: abs_mult)
  show "2 powi (binade x + 1) \<le> \<bar>2 * x\<bar>"
    using binade_bounds(1) [OF assms] unfolding p1 a by linarith
  show "\<bar>2 * x\<bar> < 2 powi (binade x + 1 + 1)"
    using binade_bounds(2) [OF assms] unfolding p2 a by linarith
qed

lemma float64_double: "float64 (2 * x) = 2 * float64 x"
proof (cases "x = 0")
  case True
  then show ?thesis by (simp add: float64_def)
next
  case False
  have "(2::rat) powi (binade x + 1 - 52) = 2 * 2 powi (binade x - 52)"
    using power_int_add [of "2::rat" "binade x - 52" 1] by (simp add: algebra_simps)
  then show ?thesis
    using False by (simp add: float64_def Let_def binade_double)
qed

lemma np_mean_single_float: "float64 a = a \<Longrightarrow> np_mean [a] = a"
  by (simp add: np_mean_def np_sum_def)

lemma np_mean_pair_between:
  assumes "float64 a = a" and "float64 b = b" and "a \<le> b"
  shows "a \<le> np_mean [a, b]" and "np_mean [a, b] \<le> b"
proof -
  define m where "m = float64 ((a + b) / 2)"
  have "a + b = 2 * ((a + b) / 2)" by simp
  then have "float64 (a + b) = float64 (2 * ((a + b) / 2))" by (rule arg_cong)
  also have "\<dots> = 2 * m" unfolding m_def by (rule float64_double)
  finally have mean: "np_mean [a, b] = float64 m"
    using assms(1,2) by (simp add: np_mean_def np_sum_def)
  have "a \<le> (a + b) / 2" "(a + b) / 2 \<le> b" using assms(3) by simp_all
  then have "a \<le> m" "m \<le> b"
    unfolding m_def using assms(1,2) by (auto intro: float64_lower float64_upper)
  then show "a \<le> np_mean [a, b]" and "np_mean [a, b] \<le> b"
    unfolding mean using assms(1,2) by (auto intro: float64_lower float64_upper)
qed

lemma np_median_between:
  assumes "float64_values data" and "data \<noteq> []"
  shows "Min (set data) \<le> np_median data" and "np_median data \<le> Max (set data)"
proof -
  let ?s = "sort data" and ?n = "length data"
  have elem: "float64 (?s ! i) = ?s ! i \<and> Min (set data) \<le> ?s ! i \<and> ?s ! i \<le> Max (set data)"
    if "i < ?n" for i
  proof -
    have "?s ! i \<in> set ?s" using that by (intro nth_mem) simp
    then have mem: "?s ! i \<in> set data" by simp
    then show ?thesis using assms(1) by (auto simp add: float64_values_def)
  qed
  have n: "0 < ?n" using assms(2) by simp
  have mid: "?n div 2 < ?n" using n by simp
  have low: "?n div 2 - 1 < ?n" using n by linarith
  have ord: "?s ! (?n div 2 - 1) \<le> ?s ! (?n div 2)"
    using mid by (intro sorted_nth_mono) auto
  note pair = np_mean_pair_between [of "?s ! (?n div 2 - 1)" "?s ! (?n div 2)"]
  have "Min (set data) \<le> np_median data \<and> np_median data \<le> Max (set data)"
  proof (cases "odd ?n")
    case True
    then show ?thesis
      using elem [OF mid] by (simp add: np_median_def Let_def np_mean_single_float)
  next
    case False
    have "?s ! (?n div 2 - 1) \<le> np_mean [?s ! (?n div 2 - 1), ?s ! (?n div 2)]"
      "np_mean [?s ! (?n div 2 - 1), ?s ! (?n div 2)] \<le> ?s ! (?n div 2)"
      using pair elem [OF mid] elem [OF low] ord by auto
    with elem [OF mid] elem [OF low] False show ?thesis
      by (simp add: np_median_def Let_def)
  qed
  then show "Min (set data) \<le> np_median data" and "np_median data \<le> Max (set data)"
    by auto
qed

lemma nearest_ties_to_even_np_around: "nearest_ties_to_even q (np_around q)"
  unfolding nearest_ties_to_even_def
  using np_around_nearest [of q] np_around_tie_even [of q] by blast

lemma block_counts_float64_values:
  assumes "block_counts data"
  shows "float64_values data" and "\<forall>x\<in>set data. x \<in> \<int>"
proof -
  from assms have all: "\<forall>x\<in>set data. 0 \<le> x \<and> x \<in> \<int>" and lt: "sum_list data < 2 ^ 52"
    by (auto simp add: block_counts_iff)
  show "\<forall>x\<in>set data. x \<in> \<int>" using all by simp
  show "float64_values data"
    unfolding float64_values_def
  proof
    fix x assume x: "x \<in> set data"
    have "x \<le> sum_list data" using all x by (intro member_le_sum_list_rat) auto
    with lt all x have "\<bar>x\<bar> < 2 ^ 53" by auto
    with all x show "float64 x = x" by (intro float64_Ints) auto
  qed
qed

section \<open>Claims about the statistics\<close>

text \<open>
  C3, as the specification states it: mean and median are rounded to the nearest integer
  with ties going away from zero. The code rounds with \<^verbatim>\<open>np.around\<close>, which sends a tie
  to the even neighbour: for the block counts 2, 3 the mean and the median are 5/2 and
  the report holds 2, where rounding away from zero gives 3.
\<close>

theorem stats_dict_mean_median_round_counterexample:
  "exact_mean [2, 3] = 5 / 2 \<and> exact_median [2, 3] = 5 / 2
   \<and> round_half_away_from_zero (5 / 2) = 3
   \<and> stat_mean (stats_dict [2, 3]) = Some 2 \<and> stat_median (stats_dict [2, 3]) = Some 2
   \<and> stat_mean (stats_dict [2, 3])
      \<noteq> Some (of_int (round_half_away_from_zero (exact_mean [2, 3])))
   \<and> stat_median (stats_dict [2, 3])
      \<noteq> Some (of_int (round_half_away_from_zero (exact_median [2, 3])))"
  by code_simp

text \<open>
  C3, amended: for every non-empty sequence, the fields mean and median hold integers:
  the nearest integer to the float64 mean and to the float64 median that numpy computes,
  and the even one of the two nearest when that value lies exactly half way. For block
  counts (non-negative integers with a sum below \<open>2\<^sup>5\<^sup>2\<close>) they are the nearest integers
  to the arithmetic mean and to the median of the sequence, with ties going to the even
  neighbour.
\<close>

theorem stats_dict_mean_median_ties_to_even:
  assumes "data \<noteq> []"
  shows "\<exists>m d. stat_mean (stats_dict data) = Some (of_int m)
           \<and> stat_median (stats_dict data) = Some (of_int d)
           \<and> nearest_ties_to_even (np_mean data) m
           \<and> nearest_ties_to_even (np_median data) d
           \<and> (block_counts data \<longrightarrow>
                nearest_ties_to_even (exact_mean data) m
                \<and> nearest_ties_to_even (exact_median data) d)"
proof -
  obtain x xs where data: "data = x # xs" using assms by (cases data) auto
  let ?m = "np_around (np_mean data)" and ?d = "np_around (np_median data)"
  have fields: "stat_mean (stats_dict data) = Some (of_int ?m)"
    "stat_median (stats_dict data) = Some (of_int ?d)"
    unfolding data by simp_all
  have counts: "nearest_ties_to_even (exact_mean data) ?m
      \<and> nearest_ties_to_even (exact_median data) ?d" if "block_counts data"
    using nearest_ties_to_even_np_around [of "exact_mean data"]
      nearest_ties_to_even_np_around [of "exact_median data"]
    by (simp add: np_mean_counts [OF that assms] np_median_counts [OF that assms])
  from fields counts nearest_ties_to_even_np_around [of "np_mean data"]
    nearest_ties_to_even_np_around [of "np_median data"]
  show ?thesis by blast
qed

theorem stats_dict_mean_median_ties_to_even_witness:
  "[0, 1 :: rat] \<noteq> [] \<and> block_counts [0, 1]
   \<and> stat_mean (stats_dict [0, 1]) = Some 0 \<and> stat_median (stats_dict [0, 1]) = Some 0
   \<and> exact_mean [0, 1] = 1 / 2
   \<and> nearest_ties_to_even (exact_mean [0, 1]) 0
   \<and> \<not> nearest_ties_to_even (exact_mean [0, 1]) 1
   \<and> np_mean [float64 (1 / 10), float64 (9 / 10)] = 1 / 2
   \<and> stat_mean (stats_dict [float64 (1 / 10), float64 (9 / 10)]) = Some 0
   \<and> nearest_ties_to_even (np_mean [float64 (1 / 10), float64 (9 / 10)]) 0"
proof -
  have ne: "[0, 1 :: rat] \<noteq> []" by simp
  have bc: "block_counts [0, 1]" by code_simp
  have m: "stat_mean (stats_dict [0, 1]) = Some 0" by code_simp
  have d: "stat_median (stats_dict [0, 1]) = Some 0" by code_simp
  have e: "exact_mean [0, 1] = 1 / 2" by (simp add: exact_mean_def)
  from stats_dict_mean_median_ties_to_even [OF ne] bc m d
  have 1: "nearest_ties_to_even (exact_mean [0, 1]) 0"
    by auto
  have 2: "\<not> nearest_ties_to_even (exact_mean [0, 1]) 1"
    by (simp add: nearest_ties_to_even_def e)
  let ?durations = "[float64 (1 / 10), float64 (9 / 10)]"
  have fm: "np_mean ?durations = 1 / 2" by code_simp
  have fs: "stat_mean (stats_dict ?durations) = Some 0" by code_simp
  have "?durations \<noteq> []" by simp
  from stats_dict_mean_median_ties_to_even [OF this] fs
  have 3: "nearest_ties_to_even (np_mean ?durations) 0"
    by auto
  from ne bc m d e 1 2 fm fs 3 show ?thesis by blast
qed

text \<open>
  C6, as the specification states it: min \<open>\<le>\<close> median \<open>\<le>\<close> max, and mean is within one
  half of the arithmetic mean. The median field is rounded and min is not: for the single
  duration 1/2 the report holds min 1/2 and median 0. The mean is computed in float64:
  for the durations 0.1 and 0.9 (as float64 values) the float64 mean is 1/2 and the
  report holds 0, while the arithmetic mean of the two values is above 1/2.
\<close>

theorem stats_dict_median_bounds_counterexample:
  "stat_min (stats_dict [1 / 2]) = Some (1 / 2) \<and> stat_median (stats_dict [1 / 2]) = Some 0
   \<and> \<not> ((1 / 2 :: rat) \<le> 0)
   \<and> float64 (1 / 10) = 3602879701896397 / 36028797018963968
   \<and> float64 (9 / 10) = 8106479329266893 / 9007199254740992
   \<and> stat_mean (stats_dict [float64 (1 / 10), float64 (9 / 10)]) = Some 0
   \<and> \<not> \<bar>0 - exact_mean [float64 (1 / 10), float64 (9 / 10)]\<bar> \<le> 1 / 2"
  by code_simp

text \<open>
  C6, amended: for every non-empty sequence, min and max are the least and the greatest
  element and mean is within one half of the float64 mean that numpy computes; when the
  elements are float64 values, median is at least min - 1/2 and at most max + 1/2; when
  they are integers as well, min \<open>\<le>\<close> median \<open>\<le>\<close> max; and for block counts (non-negative
  integers with a sum below \<open>2\<^sup>5\<^sup>2\<close>), min \<open>\<le>\<close> median \<open>\<le>\<close> max and mean is within one half
  of the arithmetic mean.
\<close>

theorem stats_dict_bounds:
  assumes "data \<noteq> []"
  shows "\<exists>lo hi mn med.
           stat_min (stats_dict data) = Some lo \<and> stat_max (stats_dict data) = Some hi
           \<and> stat_mean (stats_dict data) = Some mn \<and> stat_median (stats_dict data) = Some med
           \<and> lo = Min (set data) \<and> hi = Max (set data)
           \<and> \<bar>mn - np_mean data\<bar> \<le> 1 / 2
           \<and> (float64_values data \<longrightarrow> lo - 1 / 2 \<le> med \<and> med \<le> hi + 1 / 2)
           \<and> (float64_values data \<and> (\<forall>x\<in>set data. x \<in> \<int>) \<longrightarrow> lo \<le> med \<and> med \<le> hi)
           \<and> (block_counts data \<longrightarrow>
                lo \<le> med \<and> med \<le> hi \<and> \<bar>mn - exact_mean data\<bar> \<le> 1 / 2)"
proof -
  obtain x xs where data: "data = x # xs" using assms by (cases data) auto
  let ?lo = "Min (set data)" and ?hi = "Max (set data)"
  let ?mn = "np_around (np_mean data)" and ?med = "np_around (np_median data)"
  have fields: "stat_min (stats_dict data) = Some ?lo" "stat_max (stats_dict data) = Some ?hi"
    "stat_mean (stats_dict data) = Some (of_int ?mn)"
    "stat_median (stats_dict data) = Some (of_int ?med)"
    unfolding data by (simp_all add: fold_min_Min fold_max_Max)
  have mean: "\<bar>of_int ?mn - np_mean data\<bar> \<le> 1 / 2"
    using np_around_nearest [of "np_mean data"] by (simp add: abs_minus_commute)
  have med: "\<bar>np_median data - of_int ?med\<bar> \<le> 1 / 2"
    by (rule np_around_nearest)
  have floats: "?lo - 1 / 2 \<le> of_int ?med \<and> of_int ?med \<le> ?hi + 1 / 2"
    if "float64_values data"
    using np_median_between [OF that assms] med by (intro conjI; linarith)
  have ints: "?lo \<le> of_int ?med \<and> of_int ?med \<le> ?hi"
    if fl: "float64_values data" and all: "\<forall>x\<in>set data. x \<in> \<int>"
  proof -
    have "?lo \<in> set data" "?hi \<in> set data" using assms by simp_all
    with all obtain a b where a: "?lo = of_int a" and b: "?hi = of_int b"
      by (meson Ints_cases)
    have "a \<le> ?med"
      using np_median_between(1) [OF fl assms] unfolding a by (rule np_around_ge_int)
    moreover have "?med \<le> b"
      using np_median_between(2) [OF fl assms] unfolding b by (rule np_around_le_int)
    ultimately show ?thesis unfolding a b by simp
  qed
  have counts: "?lo \<le> of_int ?med \<and> of_int ?med \<le> ?hi
      \<and> \<bar>of_int ?mn - exact_mean data\<bar> \<le> 1 / 2" if bc: "block_counts data"
  proof -
    have "\<bar>of_int ?mn - exact_mean data\<bar> \<le> 1 / 2"
      using np_around_nearest [of "exact_mean data"]
      by (simp add: np_mean_counts [OF bc assms] abs_minus_commute)
    with ints [OF block_counts_float64_values [OF bc]] show ?thesis by simp
  qed
  from fields mean floats ints counts show ?thesis by blast
qed

theorem stats_dict_bounds_witness:
  "[1, 2, 2, 5 :: rat] \<noteq> [] \<and> block_counts [1, 2, 2, 5] \<and> float64_values [1, 2, 2, 5]
   \<and> stat_min (stats_dict [1, 2, 2, 5]) = Some 1 \<and> stat_max (stats_dict [1, 2, 2, 5]) = Some 5
   \<and> stat_median (stats_dict [1, 2, 2, 5]) = Some 2 \<and> stat_mean (stats_dict [1, 2, 2, 5]) = Some 2
   \<and> exact_mean [1, 2, 2, 5] = 5 / 2
   \<and> (\<exists>lo hi mn med. stat_min (stats_dict [1, 2, 2, 5]) = Some lo
         \<and> stat_max (stats_dict [1, 2, 2, 5]) = Some hi
         \<and> stat_mean (stats_dict [1, 2, 2, 5]) = Some mn
         \<and> stat_median (stats_dict [1, 2, 2, 5]) = Some med \<and> lo \<le> med \<and> med \<le> hi
         \<and> \<bar>mn - exact_mean [1, 2, 2, 5]\<bar> \<le> 1 / 2)
   \<and> float64_values [1 / 2] \<and> \<not> block_counts [1 / 2]
   \<and> stat_min (stats_dict [1 / 2]) = Some (1 / 2) \<and> stat_median (stats_dict [1 / 2]) = Some 0
   \<and> (\<exists>lo med. stat_min (stats_dict [1 / 2]) = Some lo
         \<and> stat_median (stats_dict [1 / 2]) = Some med \<and> lo - 1 / 2 \<le> med)"
proof -
  have ne: "[1, 2, 2, 5 :: rat] \<noteq> []" by simp
  have bc: "block_counts [1, 2, 2, 5]" by code_simp
  have fv: "float64_values [1, 2, 2, 5]" by code_simp
  have vals: "stat_min (stats_dict [1, 2, 2, 5]) = Some 1"
    "stat_max (stats_dict [1, 2, 2, 5]) = Some 5"
    "stat_median (stats_dict [1, 2, 2, 5]) = Some 2"
    "stat_mean (stats_dict [1, 2, 2, 5]) = Some 2"
    by code_simp+
  have e: "exact_mean [1, 2, 2, 5] = 5 / 2" by (simp add: exact_mean_def)
  from stats_dict_bounds [OF ne] bc
  have 1: "\<exists>lo hi mn med. stat_min (stats_dict [1, 2, 2, 5]) = Some lo
         \<and> stat_max (stats_dict [1, 2, 2, 5]) = Some hi
         \<and> stat_mean (stats_dict [1, 2, 2, 5]) = Some mn
         \<and> stat_median (stats_dict [1, 2, 2, 5]) = Some med \<and> lo \<le> med \<and> med \<le> hi
         \<and> \<bar>mn - exact_mean [1, 2, 2, 5]\<bar> \<le> 1 / 2"
    by blast
  have half: "float64_values [1 / 2]" "\<not> block_counts [1 / 2]"
    "stat_min (stats_dict [1 / 2]) = Some (1 / 2)" "stat_median (stats_dict [1 / 2]) = Some 0"
    by code_simp+
  have "[1 / 2 :: rat] \<noteq> []" by simp
  from stats_dict_bounds [OF this] half(1)
  have 2: "\<exists>lo med. stat_min (stats_dict [1 / 2]) = Some lo
         \<and> stat_median (stats_dict [1 / 2]) = Some med \<and> lo - 1 / 2 \<le> med"
    by blast
  from ne bc fv vals e 1 half 2 show ?thesis by blast
qed

text \<open>
  C7: for every non-empty sequence, the field mode holds an element of the sequence that
  no element occurs more often than, and the smallest of the elements that occur as
  often.
\<close>

theorem stats_dict_mode_smallest_most_frequent:
  assumes "data \<noteq> []"
  shows "\<exists>m. stat_mode (stats_dict data) = Some m \<and> m \<in> set data
           \<and> (\<forall>y\<in>set data. count_list data y \<le> count_list data m)
           \<and> (\<forall>y\<in>set data. count_list data y = count_list data m \<longrightarrow> m \<le> y)"
proof -
  obtain x xs where data: "data = x # xs" using assms by (cases data) auto
  obtain m c where mc: "stats_mode data = (m, c)" by (cases "stats_mode data")
  from stats_mode_correct [OF assms mc]
  have "m \<in> set data" "count_list data m = c" "\<forall>s\<in>set data. count_list data s \<le> c"
    "\<forall>s\<in>set data. count_list data s = c \<longrightarrow> m \<le> s"
    by auto
  moreover have "stat_mode (stats_dict data) = Some m"
    using mc unfolding data by simp
  ultimately show ?thesis by auto
qed

theorem stats_dict_mode_smallest_most_frequent_witness:
  "[3, 1, 3, 1, 2 :: rat] \<noteq> [] \<and> stat_mode (stats_dict [3, 1, 3, 1, 2]) = Some 1
   \<and> count_list [3, 1, 3, 1, 2 :: rat] 3 = count_list [3, 1, 3, 1, 2 :: rat] 1
   \<and> count_list [3, 1, 3, 1, 2 :: rat] 2 \<le> count_list [3, 1, 3, 1, 2 :: rat] 1"
proof -
  have ne: "[3, 1, 3, 1, 2 :: rat] \<noteq> []" by simp
  have m: "stat_mode (stats_dict [3, 1, 3, 1, 2]) = Some 1" by code_simp
  from stats_dict_mode_smallest_most_frequent [OF ne] m
  have "\<forall>y\<in>set [3, 1, 3, 1, 2 :: rat].
          count_list [3, 1, 3, 1, 2 :: rat] y \<le> count_list [3, 1, 3, 1, 2 :: rat] 1"
    by auto
  then have "count_list [3, 1, 3, 1, 2 :: rat] 2 \<le> count_list [3, 1, 3, 1, 2 :: rat] 1"
    by simp
  moreover have "count_list [3, 1, 3, 1, 2 :: rat] 3 = count_list [3, 1, 3, 1, 2 :: rat] 1"
    by simp
  ultimately show ?thesis using ne m by blast
qed

section \<open>Request parameters and the response\<close>

lemma get_bool_param_all_true:
  "parse_bool (query_params request ''all'') = Some True \<Longrightarrow>
   get_bool_param request part (get_bool_param request ''all'' False)"
  by (simp add: get_bool_param_def)

lemma get_bool_param_part_requested:
  "get_bool_param request part (get_bool_param request ''all'' False)
     = part_requested request part"
  by (auto simp add: get_bool_param_def part_requested_def split: option.splits)

section \<open>Claims about the view\<close>

text \<open>
  C5: a request whose course key parses and whose user lacks author access to it gets the
  403 error response; \<^verbatim>\<open>get\<close> has then made no call on the modulestore, whatever store
  and video pipeline there are, and the response holds no report. (A course id that does
  not parse raises before the permission check.)
\<close>

theorem get_forbidden_before_store_access:
  assumes "from_string env course_id = Some key"
    and "\<not> has_course_author_access env (user request) key"
  shows "get env store request course_id =
           ([], Inr (ErrorResponse 403
                       ''The user requested does not have the required permissions.''
                       ''user_mismatch''))"
  using assms by (simp add: get_def)

theorem get_forbidden_before_store_access_witness:
  "from_string demo_env ''demo'' = Some ''demo''
   \<and> \<not> has_course_author_access demo_env
        (user (demo_request ''student'' [(''all'', ''true'')])) ''demo''
   \<and> get demo_env demo_store (demo_request ''student'' [(''all'', ''true'')]) ''demo'' =
       ([], Inr (ErrorResponse 403
                   ''The user requested does not have the required permissions.''
                   ''user_mismatch''))"
proof -
  have k: "from_string demo_env ''demo'' = Some ''demo''"
    by (simp add: demo_env_def)
  have a: "\<not> has_course_author_access demo_env
        (user (demo_request ''student'' [(''all'', ''true'')])) ''demo''"
    by (simp add: demo_env_def demo_request_def)
  from get_forbidden_before_store_access [OF k a, of demo_store] k a show ?thesis by simp
qed

text \<open>
  C9: for every request that passes the permission check, the depth passed to the course
  load is unbounded when units or subsections is requested, one when of the three only
  sections is requested, and zero otherwise, where a part is requested by its own
  parameter or by \<^verbatim>\<open>all\<close>, which is treated as requesting everything.
\<close>

theorem course_depth_policy:
  assumes "from_string env course_id = Some key"
    and "has_course_author_access env (user request) key"
  shows "fst (get env store request course_id) =
           [Modulestore, BulkOperations key,
            GetCourse key
              (if part_requested request ''units'' \<or> part_requested request ''subsections''
               then None
               else if part_requested request ''sections'' then Some 1
               else Some 0)]"
  using assms
  by (simp add: get_def Let_def required_course_depth_def get_bool_param_part_requested)

theorem course_depth_policy_witness:
  "from_string demo_env ''demo'' = Some ''demo''
   \<and> has_course_author_access demo_env (user (demo_request ''staff'' [])) ''demo''
   \<and> fst (get demo_env demo_store
         (demo_request ''staff''
            [(''all'', ''true''), (''units'', ''false''), (''subsections'', ''false'')])
         ''demo'')
       = [Modulestore, BulkOperations ''demo'', GetCourse ''demo'' None]
   \<and> fst (get demo_env demo_store (demo_request ''staff'' [(''subsections'', ''true'')]) ''demo'')
       = [Modulestore, BulkOperations ''demo'', GetCourse ''demo'' None]
   \<and> fst (get demo_env demo_store (demo_request ''staff'' [(''sections'', ''True'')]) ''demo'')
       = [Modulestore, BulkOperations ''demo'', GetCourse ''demo'' (Some 1)]
   \<and> fst (get demo_env demo_store (demo_request ''staff'' [(''videos'', ''true'')]) ''demo'')
       = [Modulestore, BulkOperations ''demo'', GetCourse ''demo'' (Some 0)]"
proof -
  have k: "from_string demo_env ''demo'' = Some ''demo''"
    by (simp add: demo_env_def)
  have a: "has_course_author_access demo_env (user (demo_request ''staff'' ps)) ''demo''" for ps
    by (simp add: demo_env_def demo_request_def)
  have p1: "part_requested (demo_request ''staff''
      [(''all'', ''true''), (''units'', ''false''), (''subsections'', ''false'')]) ''units''"
    by code_simp
  have p2: "\<not> part_requested (demo_request ''staff'' [(''subsections'', ''true'')]) ''units''"
    "part_requested (demo_request ''staff'' [(''subsections'', ''true'')]) ''subsections''"
    by code_simp+
  have p3: "\<not> part_requested (demo_request ''staff'' [(''sections'', ''True'')]) ''units''"
    "\<not> part_requested (demo_request ''staff'' [(''sections'', ''True'')]) ''subsections''"
    "part_requested (demo_request ''staff'' [(''sections'', ''True'')]) ''sections''"
    by code_simp+
  have p4: "\<not> part_requested (demo_request ''staff'' [(''videos'', ''true'')]) ''units''"
    "\<not> part_requested (demo_request ''staff'' [(''videos'', ''true'')]) ''subsections''"
    "\<not> part_requested (demo_request ''staff'' [(''videos'', ''true'')]) ''sections''"
    by code_simp+
  have depth: "fst (get demo_env demo_store (demo_request ''staff'' ps) ''demo'') =
      [Modulestore, BulkOperations ''demo'',
       GetCourse ''demo''
         (if part_requested (demo_request ''staff'' ps) ''units''
             \<or> part_requested (demo_request ''staff'' ps) ''subsections''
          then None
          else if part_requested (demo_request ''staff'' ps) ''sections'' then Some 1
          else Some 0)]" for ps
    by (rule course_depth_policy [OF k a])
  from depth [of "[(''all'', ''true''), (''units'', ''false''), (''subsections'', ''false'')]"]
    depth [of "[(''subsections'', ''true'')]"] depth [of "[(''sections'', ''True'')]"]
    depth [of "[(''videos'', ''true'')]"] p1 p2 p3 p4 k a [of "[]"]
  show ?thesis by simp
qed

text \<open>
  C2: for every request in which \<^verbatim>\<open>all\<close> parses to true and that is answered with a
  report, each of the four parts is computed and is in the response, whatever the
  parameters of the four parts say: the part of the response is the value that
  \<^verbatim>\<open>_sections_quality\<close>, \<^verbatim>\<open>_subsections_quality\<close>, \<^verbatim>\<open>_units_quality\<close> and
  \<^verbatim>\<open>_videos_quality\<close> return for the course.
\<close>

theorem get_all_forces_every_part:
  assumes "parse_bool (query_params request ''all'') = Some True"
    and "get env store request course_id = (calls, Inr (Response r))"
  shows "\<exists>key course q_sections q_subsections q_units.
           from_string env course_id = Some key \<and> get_course store key = Some course
         \<and> sections_quality store course = Inr q_sections
         \<and> sections r = Some q_sections
         \<and> subsections_quality store course request = Inr q_subsections
         \<and> subsections r = Some q_subsections
         \<and> units_quality store course request = Inr q_units
         \<and> units r = Some q_units
         \<and> videos r = Some (videos_quality env store course)"
proof -
  let ?all = "get_bool_param request ''all'' False"
  from assms(2) obtain key course where
    key: "from_string env course_id = Some key" and course: "get_course store key = Some course"
    and built: "build_response env store request ?all course = Inr (Response r)"
    by (auto simp add: get_def Let_def split: option.splits if_splits)
  have on: "get_bool_param request part ?all" for part
    using assms(1) by (rule get_bool_param_all_true)
  from built have "\<exists>q_sections q_subsections q_units.
      sections_quality store course = Inr q_sections \<and> sections r = Some q_sections
      \<and> subsections_quality store course request = Inr q_subsections
      \<and> subsections r = Some q_subsections
      \<and> units_quality store course request = Inr q_units \<and> units r = Some q_units
      \<and> videos r = Some (videos_quality env store course)"
    unfolding build_response_def when_requested_def
    by (auto simp add: on split: sum.splits)
  with key course show ?thesis by blast
qed

theorem get_all_forces_every_part_witness:
  "parse_bool (query_params
      (demo_request ''staff'' [(''all'', ''TRUE''), (''sections'', ''false''), (''videos'', ''False'')])
      ''all'') = Some True
   \<and> parse_bool (query_params
      (demo_request ''staff'' [(''all'', ''TRUE''), (''sections'', ''false''), (''videos'', ''False'')])
      ''sections'') = Some False
   \<and> (\<exists>calls r.
         get demo_env demo_store
           (demo_request ''staff''
              [(''all'', ''TRUE''), (''sections'', ''false''), (''videos'', ''False'')]) ''demo''
           = (calls, Inr (Response r))
         \<and> sections r
             = Some \<lparr>sec_total_number = 2, sec_total_visible = 1, number_with_highlights = 0,
                     highlights_enabled = False\<rparr>
         \<and> subsections r \<noteq> None \<and> units r \<noteq> None
         \<and> videos r = Some (videos_quality demo_env demo_store demo_course))"
proof -
  let ?request = "demo_request ''staff''
    [(''all'', ''TRUE''), (''sections'', ''false''), (''videos'', ''False'')]"
  have all: "parse_bool (query_params ?request ''all'') = Some True"
    by code_simp
  have off: "parse_bool (query_params ?request ''sections'') = Some False"
    by code_simp
  have "(case get demo_env demo_store ?request ''demo'' of
           (calls, Inr (Response r)) \<Rightarrow> True
         | _ \<Rightarrow> False)"
    by code_simp
  then obtain calls r where
    run: "get demo_env demo_store ?request ''demo'' = (calls, Inr (Response r))"
    by (auto split: prod.splits sum.splits http_response.splits)
  have course: "get_course demo_store ''demo'' = Some demo_course"
    by code_simp
  have secs: "sections_quality demo_store demo_course
      = Inr \<lparr>sec_total_number = 2, sec_total_visible = 1, number_with_highlights = 0,
             highlights_enabled = False\<rparr>"
    by code_simp
  from get_all_forces_every_part [OF all run] course secs
  have "sections r
          = Some \<lparr>sec_total_number = 2, sec_total_visible = 1, number_with_highlights = 0,
                  highlights_enabled = False\<rparr>
      \<and> subsections r \<noteq> None \<and> units r \<noteq> None
      \<and> videos r = Some (videos_quality demo_env demo_store demo_course)"
    by (auto simp add: demo_env_def)
  with all off run show ?thesis by blast
qed

text \<open>
  C4, as the specification states it: the encoded videos are a subset of the course's
  video blocks, so that \<^verbatim>\<open>num_mobile_encoded\<close> is at most \<^verbatim>\<open>total_number\<close>. The code
  never compares the records of the video pipeline with the video blocks: the example
  course has two video blocks and three records.
\<close>

theorem videos_quality_encoded_counterexample:
  "vid_total_number (videos_quality demo_env demo_store demo_course) = 2
   \<and> num_mobile_encoded (videos_quality demo_env demo_store demo_course) = 3
   \<and> \<not> num_mobile_encoded (videos_quality demo_env demo_store demo_course)
        \<le> vid_total_number (videos_quality demo_env demo_store demo_course)"
  by code_simp

text \<open>
  C4, amended: \<^verbatim>\<open>num_mobile_encoded\<close> is the number of records the video pipeline returns
  for the course and \<^verbatim>\<open>durations\<close> is the summary of the durations of exactly those
  records; both are the same whatever blocks the store holds. \<^verbatim>\<open>total_number\<close> is the
  number of video blocks of the course in the store, and \<^verbatim>\<open>num_with_val_id\<close> is at most
  \<^verbatim>\<open>total_number\<close>.
\<close>

theorem videos_quality_from_pipeline_records:
  "num_mobile_encoded (videos_quality env store course)
     = length (get_videos_for_course env (course_key (location course)))
   \<and> durations (videos_quality env store course)
     = stats_dict (map duration (get_videos_for_course env (course_key (location course))))
   \<and> vid_total_number (videos_quality env store course)
     = length (get_items store (course_key (location course)) ''video'')
   \<and> num_with_val_id (videos_quality env store course)
     \<le> vid_total_number (videos_quality env store course)
   \<and> num_mobile_encoded (videos_quality env store' course)
     = num_mobile_encoded (videos_quality env store course)
   \<and> durations (videos_quality env store' course) = durations (videos_quality env store course)"
  by (simp add: videos_quality_def Let_def)

section \<open>Store reads and the traversal\<close>

lemma get_item_Inr:
  assumes "get_item store k = Inr b"
  shows "b \<in> set store" and "location b = k" and "get_item store (location b) = Inr b"
proof -
  have found: "find P xs = Some x \<Longrightarrow> x \<in> set xs \<and> P x" for P and xs :: "xblock list" and x
    by (induction xs) (auto split: if_splits)
  from assms have "find (\<lambda>b. location b = k) store = Some b"
    by (auto simp add: get_item_def split: option.splits)
  from found [OF this] show "b \<in> set store" and loc: "location b = k" by auto
  from assms loc show "get_item store (location b) = Inr b" by simp
qed

lemma get_item_each_fetched:
  "get_item_each store ks = Inr bs \<Longrightarrow> b \<in> set bs \<Longrightarrow> get_item store (location b) = Inr b"
proof (induction ks arbitrary: bs)
  case Nil
  then show ?case by simp
next
  case (Cons k ks)
  then show ?case
    by (auto split: sum.splits dest: get_item_Inr(3))
qed

lemma get_all_children_props:
  assumes "get_all_children store parent = Inr (all_children, visible_children)"
  shows "visible_children
           = filter (\<lambda>s. \<not> visible_to_staff_only s \<and> \<not> hide_from_toc s) all_children"
    and "b \<in> set all_children \<Longrightarrow> get_item store (location b) = Inr b"
  using assms get_item_each_fetched
  by (auto simp add: get_all_children_def split: sum.splits)

lemma get_visible_children_props:
  assumes "get_visible_children store parent = Inr visible_children"
    and "b \<in> set visible_children"
  shows "get_item store (location b) = Inr b"
    and "\<not> visible_to_staff_only b" and "\<not> hide_from_toc b"
proof -
  obtain all_children where
    "get_all_children store parent = Inr (all_children, visible_children)"
    using assms(1) by (auto simp add: get_visible_children_def split: sum.splits)
  from get_all_children_props [OF this] assms(2)
  show "get_item store (location b) = Inr b"
    and "\<not> visible_to_staff_only b" and "\<not> hide_from_toc b"
    by auto
qed

lemma traverse_pre_order_not_staff_only:
  "traverse_pre_order store filter_func stack visited = Inr out \<Longrightarrow>
   \<forall>n\<in>set stack. \<not> visible_to_staff_only n \<Longrightarrow>
   b \<in> set out \<Longrightarrow> \<not> visible_to_staff_only b"
proof (induction store filter_func stack visited arbitrary: out
    rule: traverse_pre_order.induct)
  case (1 store filter_func visited)
  then show ?case by simp
next
  case (2 store filter_func node stack visited)
  show ?case
  proof (cases "location node \<in> set visited")
    case True
    with "2.prems" "2.IH"(1) show ?thesis by simp
  next
    case False
    from "2.prems"(1) False obtain cs out' where
      cs: "get_visible_children store node = Inr cs"
      and rec: "traverse_pre_order store filter_func
                  (filter (\<lambda>c. location c \<notin> set visited) cs @ stack) (location node # visited)
                = Inr out'"
      and out: "out = (if filter_func node then node # out' else out')"
      by (auto split: sum.splits)
    have "\<forall>n\<in>set (filter (\<lambda>c. location c \<notin> set visited) cs @ stack).
            \<not> visible_to_staff_only n"
      using "2.prems"(2) get_visible_children_props(2) [OF cs] by auto
    then have "b \<in> set out' \<Longrightarrow> \<not> visible_to_staff_only b"
      using "2.IH"(2) [OF False cs rec] by blast
    with out "2.prems"(2,3) show ?thesis
      by (auto split: if_splits)
  qed
qed

lemma get_leaf_blocks_not_staff_only:
  "get_leaf_blocks store unit = Inr leaf_blocks \<Longrightarrow> \<not> visible_to_staff_only unit \<Longrightarrow>
   b \<in> set leaf_blocks \<Longrightarrow> \<not> visible_to_staff_only b"
  unfolding get_leaf_blocks_def
  using traverse_pre_order_not_staff_only [of store _ "[unit]" "[]" leaf_blocks b] by simp

lemma set_update_subset: "set (AList.update k v al) \<subseteq> insert (k, v) (set al)"
  by (induction al) auto

lemma unit_loop_entries:
  "unit_loop store visible_units unit_dict0 = Inr unit_dict \<Longrightarrow>
   \<forall>u\<in>set visible_units. get_item store (location u) = Inr u \<and> \<not> visible_to_staff_only u \<Longrightarrow>
   \<forall>(k, info)\<in>set unit_dict0. counted_unit store k info \<Longrightarrow>
   \<forall>(k, info)\<in>set unit_dict. counted_unit store k info"
proof (induction visible_units arbitrary: unit_dict0)
  case Nil
  then show ?case by simp
next
  case (Cons unit visible_units)
  from Cons.prems(1) obtain leaf_blocks where
    leaves: "get_leaf_blocks store unit = Inr leaf_blocks"
    and rest: "unit_loop store visible_units
        (AList.update (location unit)
           \<lparr>num_leaf_blocks = length leaf_blocks,
            leaf_block_types = set (map (\<lambda>block. block_type (location block)) leaf_blocks)\<rparr>
           unit_dict0) = Inr unit_dict"
    by (auto split: sum.splits)
  have unit: "get_item store (location unit) = Inr unit" "\<not> visible_to_staff_only unit"
    using Cons.prems(2) by auto
  have "counted_unit store (location unit)
          \<lparr>num_leaf_blocks = length leaf_blocks,
           leaf_block_types = set (map (\<lambda>block. block_type (location block)) leaf_blocks)\<rparr>"
    unfolding counted_unit_def
    using unit leaves get_leaf_blocks_not_staff_only [OF leaves unit(2)] by blast
  then have "\<forall>(k, info)\<in>set (AList.update (location unit)
           \<lparr>num_leaf_blocks = length leaf_blocks,
            leaf_block_types = set (map (\<lambda>block. block_type (location block)) leaf_blocks)\<rparr>
           unit_dict0). counted_unit store k info"
    using Cons.prems(3) set_update_subset by fastforce
  with Cons.IH [OF rest] Cons.prems(2) show ?case by simp
qed

lemma unit_dict_of_entries:
  assumes "unit_dict_of store subsection = Inr unit_dict"
  shows "\<forall>(k, info)\<in>set unit_dict. counted_unit store k info"
proof -
  from assms obtain visible_units where
    vis: "get_visible_children store subsection = Inr visible_units"
    and loop: "unit_loop store visible_units [] = Inr unit_dict"
    by (auto simp add: unit_dict_of_def split: sum.splits)
  show ?thesis
    using unit_loop_entries [OF loop] get_visible_children_props [OF vis] by simp
qed

section \<open>The loops over sections, subsections and units\<close>

lemma kept_subsections_props:
  assumes "kept_subsections store request sec = Inr visible_subsections"
    and "s \<in> set visible_subsections"
  shows "get_item store (location s) = Inr s" and "\<not> visible_to_staff_only s"
    and "\<not> hide_from_toc s"
proof -
  from assms obtain vs where vs: "get_visible_children store sec = Inr vs" and "s \<in> set vs"
    by (auto simp add: kept_subsections_def split: sum.splits if_splits)
  from get_visible_children_props [OF this]
  show "get_item store (location s) = Inr s" and "\<not> visible_to_staff_only s"
    and "\<not> hide_from_toc s"
    by auto
qed

lemma subsection_loop_entries:
  "subsection_loop store visible_subsections dict0 = Inr dict \<Longrightarrow>
   \<forall>s\<in>set visible_subsections.
      get_item store (location s) = Inr s \<and> \<not> visible_to_staff_only s \<Longrightarrow>
   \<forall>(k, unit_dict)\<in>set dict0. counted_subsection store k unit_dict \<Longrightarrow>
   \<forall>(k, unit_dict)\<in>set dict. counted_subsection store k unit_dict"
proof (induction visible_subsections arbitrary: dict0)
  case Nil
  then show ?case by simp
next
  case (Cons subsec visible_subsections)
  from Cons.prems(1) obtain unit_dict where
    units: "unit_dict_of store subsec = Inr unit_dict"
    and rest: "subsection_loop store visible_subsections
        (AList.update (location subsec) unit_dict dict0) = Inr dict"
    by (auto split: sum.splits)
  have "counted_subsection store (location subsec) unit_dict"
    unfolding counted_subsection_def
    using Cons.prems(2) units unit_dict_of_entries [OF units] by auto
  then have "\<forall>(k, ud)\<in>set (AList.update (location subsec) unit_dict dict0).
      counted_subsection store k ud"
    using Cons.prems(3) set_update_subset by fastforce
  with Cons.IH [OF rest] Cons.prems(2) show ?case by simp
qed

lemma section_loop_entries:
  "section_loop store request visible_sections dict0 = Inr dict \<Longrightarrow>
   \<forall>(k, unit_dict)\<in>set dict0. counted_subsection store k unit_dict \<Longrightarrow>
   \<forall>(k, unit_dict)\<in>set dict. counted_subsection store k unit_dict"
proof (induction visible_sections arbitrary: dict0)
  case Nil
  then show ?case by simp
next
  case (Cons sec visible_sections)
  from Cons.prems(1) obtain visible_subsections dict1 where
    kept: "kept_subsections store request sec = Inr visible_subsections"
    and inner: "subsection_loop store visible_subsections dict0 = Inr dict1"
    and rest: "section_loop store request visible_sections dict1 = Inr dict"
    by (auto split: sum.splits)
  have "\<forall>(k, ud)\<in>set dict1. counted_subsection store k ud"
    using subsection_loop_entries [OF inner _ Cons.prems(2)] kept_subsections_props [OF kept]
    by blast
  with Cons.IH [OF rest] show ?case by simp
qed


lemma subsection_loop_distinct:
  "subsection_loop store visible_subsections dict0 = Inr dict \<Longrightarrow>
   distinct (map fst dict0) \<Longrightarrow> distinct (map fst dict)"
proof (induction visible_subsections arbitrary: dict0)
  case Nil
  then show ?case by simp
next
  case (Cons subsec visible_subsections)
  from Cons.prems(1) obtain unit_dict where
    rest: "subsection_loop store visible_subsections
        (AList.update (location subsec) unit_dict dict0) = Inr dict"
    by (auto split: sum.splits)
  from Cons.IH [OF rest] Cons.prems(2) show ?case
    by (simp add: distinct_update)
qed


lemma section_loop_distinct:
  "section_loop store request visible_sections dict0 = Inr dict \<Longrightarrow>
   distinct (map fst dict0) \<Longrightarrow> distinct (map fst dict)"
proof (induction visible_sections arbitrary: dict0)
  case Nil
  then show ?case by simp
next
  case (Cons sec visible_sections)
  from Cons.prems(1) obtain visible_subsections dict1 where
    inner: "subsection_loop store visible_subsections dict0 = Inr dict1"
    and rest: "section_loop store request visible_sections dict1 = Inr dict"
    by (auto split: sum.splits)
  from Cons.IH [OF rest] subsection_loop_distinct [OF inner Cons.prems(2)] show ?case
    by simp
qed

lemma subsection_loop_filter:
  "subsection_loop store visible_subsections dict_f = Inr dict_f' \<Longrightarrow>
   fst ` set dict_t \<subseteq> fst ` set dict_f \<Longrightarrow>
   \<exists>dict_t'. subsection_loop store (filter P visible_subsections) dict_t = Inr dict_t'
     \<and> fst ` set dict_t' \<subseteq> fst ` set dict_f'"
proof (induction visible_subsections arbitrary: dict_f dict_t)
  case Nil
  then show ?case by simp
next
  case (Cons subsec visible_subsections)
  from Cons.prems(1) obtain unit_dict where
    units: "unit_dict_of store subsec = Inr unit_dict"
    and rest: "subsection_loop store visible_subsections
        (AList.update (location subsec) unit_dict dict_f) = Inr dict_f'"
    by (auto split: sum.splits)
  show ?case
  proof (cases "P subsec")
    case True
    have "fst ` set (AList.update (location subsec) unit_dict dict_t)
        \<subseteq> fst ` set (AList.update (location subsec) unit_dict dict_f)"
      using Cons.prems(2) by (auto simp add: dom_update)
    from Cons.IH [OF rest this] True units show ?thesis by simp
  next
    case False
    have "fst ` set dict_t
        \<subseteq> fst ` set (AList.update (location subsec) unit_dict dict_f)"
      using Cons.prems(2) by (auto simp add: dom_update)
    from Cons.IH [OF rest this] False show ?thesis by simp
  qed
qed

lemma section_loop_exclude_graded:
  assumes "get_bool_param request_t ''exclude_graded'' False"
    and "\<not> get_bool_param request_f ''exclude_graded'' False"
  shows "section_loop store request_f visible_sections dict_f = Inr dict_f' \<Longrightarrow>
   fst ` set dict_t \<subseteq> fst ` set dict_f \<Longrightarrow>
   \<exists>dict_t'. section_loop store request_t visible_sections dict_t = Inr dict_t'
     \<and> fst ` set dict_t' \<subseteq> fst ` set dict_f'"
proof (induction visible_sections arbitrary: dict_f dict_t)
  case Nil
  then show ?case by simp
next
  case (Cons sec visible_sections)
  from Cons.prems(1) assms(2) obtain visible_subsections dict_f1 where
    vis: "get_visible_children store sec = Inr visible_subsections"
    and inner: "subsection_loop store visible_subsections dict_f = Inr dict_f1"
    and rest: "section_loop store request_f visible_sections dict_f1 = Inr dict_f'"
    by (auto simp add: kept_subsections_def split: sum.splits)
  have kept_t: "kept_subsections store request_t sec
      = Inr (filter (\<lambda>s. \<not> graded s) visible_subsections)"
    using vis assms(1) by (simp add: kept_subsections_def)
  from subsection_loop_filter [OF inner Cons.prems(2), of "\<lambda>s. \<not> graded s"]
  obtain dict_t1 where
    inner_t: "subsection_loop store (filter (\<lambda>s. \<not> graded s) visible_subsections) dict_t
        = Inr dict_t1"
    and sub: "fst ` set dict_t1 \<subseteq> fst ` set dict_f1"
    by blast
  from Cons.IH [OF rest sub] kept_t inner_t show ?case by simp
qed

lemma get_subsections_and_units_distinct:
  assumes "get_subsections_and_units store course request = Inr dict"
  shows "distinct (map fst dict)"
  using assms section_loop_distinct [of store request _ "[]" dict]
  by (auto simp add: get_subsections_and_units_def split: sum.splits)

lemma sub_total_visible_card:
  assumes "get_subsections_and_units store course request = Inr dict"
  shows "sub_total_visible (subsections_quality_of dict) = card (fst ` set dict)"
proof -
  have "card (set (map fst dict)) = length (map fst dict)"
    using get_subsections_and_units_distinct [OF assms] by (rule distinct_card)
  then show ?thesis
    by (simp add: subsections_quality_of_def num_block_types_per_subsection_def Let_def)
qed


lemma get_subsections_and_units_sections:
  assumes "get_subsections_and_units store course request = Inr dict"
  obtains all_sections visible_sections where
    "get_sections store course = Inr (all_sections, visible_sections)"
    and "section_loop store request visible_sections [] = Inr dict"
  using assms by (auto simp add: get_subsections_and_units_def split: sum.splits)

lemma unit_total_visible_length:
  assumes "get_subsections_and_units store course request = Inr dict"
  shows "\<exists>q. units_quality store course request = Inr q
           \<and> unit_total_visible q = length (concat (map snd dict))"
proof -
  have "length (concat (map (\<lambda>(_, unit_dict).
            map (\<lambda>(_, unit_info). num_leaf_blocks unit_info) unit_dict) al))
      = length (concat (map snd al))" for al :: subsection_dict
    by (induction al) auto
  with assms show ?thesis
    by (simp add: units_quality_def Let_def)
qed




section \<open>Claims about the course tree\<close>

text \<open>
  C1, as the specification states it: a staff-only node contributes to no aggregate of
  the report. \<^verbatim>\<open>sections.total_number\<close> counts every section and the videos part counts
  every video block of the store, staff-only or not: in the example course the second of
  the two sections and the second of the two video blocks are staff-only, and both
  totals are 2.
\<close>

theorem staff_only_counted_counterexample:
  "visible_to_staff_only demo_staff_section \<and> visible_to_staff_only demo_staff_video
   \<and> get_sections demo_store demo_course
       = Inr ([demo_section, demo_staff_section], [demo_section])
   \<and> sections_quality demo_store demo_course
       = Inr \<lparr>sec_total_number = 2, sec_total_visible = 1, number_with_highlights = 0,
              highlights_enabled = False\<rparr>
   \<and> get_items demo_store ''demo'' ''video''
       = [(demo_block (demo_key ''video'' ''v1'') None)\<lparr>edx_video_id := ''val1''\<rparr>,
          demo_staff_video]
   \<and> vid_total_number (videos_quality demo_env demo_store demo_course) = 2"
  by code_simp

text \<open>
  C1, amended: whenever the tree is read without an error, no staff-only block is among
  the visible sections that \<^verbatim>\<open>sections.total_visible\<close> and \<^verbatim>\<open>number_with_highlights\<close>
  count; every subsection that \<^verbatim>\<open>subsections.total_visible\<close> counts and every unit that
  \<^verbatim>\<open>units.total_visible\<close> counts is a stored block that is not staff-only; and the leaf
  blocks behind a unit's block count and block types, at whatever depth below the unit,
  are not staff-only. (\<^verbatim>\<open>sections.total_number\<close> and the videos part are not filtered.)
\<close>

theorem staff_only_blocks_never_counted:
  assumes "get_subsections_and_units store course request = Inr subsection_unit_dict"
  shows "\<exists>all_sections visible_sections q q_u.
           get_sections store course = Inr (all_sections, visible_sections)
         \<and> (\<forall>s\<in>set visible_sections. \<not> visible_to_staff_only s)
         \<and> sections_quality store course = Inr q
         \<and> sec_total_visible q = length visible_sections
         \<and> number_with_highlights q = length (filter (\<lambda>s. highlights s \<noteq> []) visible_sections)
         \<and> subsections_quality store course request
             = Inr (subsections_quality_of subsection_unit_dict)
         \<and> units_quality store course request = Inr q_u
         \<and> unit_total_visible q_u = length (concat (map snd subsection_unit_dict))
         \<and> (\<forall>(k, unit_dict)\<in>set subsection_unit_dict. counted_subsection store k unit_dict)"
proof -
  from assms obtain all_sections visible_sections where
    secs: "get_sections store course = Inr (all_sections, visible_sections)"
    and loop: "section_loop store request visible_sections [] = Inr subsection_unit_dict"
    by (rule get_subsections_and_units_sections)
  have vis: "\<forall>s\<in>set visible_sections. \<not> visible_to_staff_only s"
    using get_all_children_props(1) [OF secs [unfolded get_sections_def]] by simp
  have entries: "\<forall>(k, unit_dict)\<in>set subsection_unit_dict. counted_subsection store k unit_dict"
    using section_loop_entries [OF loop] by simp
  from unit_total_visible_length [OF assms] obtain q_u where
    units: "units_quality store course request = Inr q_u"
      "unit_total_visible q_u = length (concat (map snd subsection_unit_dict))"
    by blast
  show ?thesis
    using secs vis entries assms units
    by (simp add: sections_quality_def subsections_quality_def Let_def)
qed

theorem staff_only_blocks_never_counted_witness:
  "\<exists>d. get_subsections_and_units demo_store demo_course (demo_request ''staff'' []) = Inr d
      \<and> length d = 3
      \<and> (\<forall>(k, unit_dict)\<in>set d. counted_subsection demo_store k unit_dict)"
proof -
  have "(case get_subsections_and_units demo_store demo_course (demo_request ''staff'' []) of
           Inr d \<Rightarrow> length d = 3
         | Inl e \<Rightarrow> False)"
    by code_simp
  then obtain d where
    run: "get_subsections_and_units demo_store demo_course (demo_request ''staff'' []) = Inr d"
    and len: "length d = 3"
    by (auto split: sum.splits)
  from staff_only_blocks_never_counted [OF run]
  have "\<forall>(k, unit_dict)\<in>set d. counted_subsection demo_store k unit_dict"
    by blast
  with run len show ?thesis by blast
qed

text \<open>
  C8: for a fixed store and course, if the subsections part is computed without
  \<^verbatim>\<open>exclude_graded\<close>, it is also computed with \<^verbatim>\<open>exclude_graded\<close>, and its
  \<^verbatim>\<open>total_visible\<close> is then less than or equal to the one without.
\<close>

theorem exclude_graded_never_adds_subsections:
  assumes "get_bool_param request_t ''exclude_graded'' False"
    and "\<not> get_bool_param request_f ''exclude_graded'' False"
    and "subsections_quality store course request_f = Inr q_f"
  shows "\<exists>q_t. subsections_quality store course request_t = Inr q_t
           \<and> sub_total_visible q_t \<le> sub_total_visible q_f"
proof -
  from assms(3) obtain dict_f where
    run_f: "get_subsections_and_units store course request_f = Inr dict_f"
    and q_f: "q_f = subsections_quality_of dict_f"
    by (auto simp add: subsections_quality_def split: sum.splits)
  from run_f obtain all_sections visible_sections where
    secs: "get_sections store course = Inr (all_sections, visible_sections)"
    and loop_f: "section_loop store request_f visible_sections [] = Inr dict_f"
    by (rule get_subsections_and_units_sections)
  from section_loop_exclude_graded [OF assms(1,2) loop_f, of "[]"]
  obtain dict_t where
    loop_t: "section_loop store request_t visible_sections [] = Inr dict_t"
    and sub: "fst ` set dict_t \<subseteq> fst ` set dict_f"
    by auto
  have run_t: "get_subsections_and_units store course request_t = Inr dict_t"
    using secs loop_t by (simp add: get_subsections_and_units_def)
  have "card (fst ` set dict_t) \<le> card (fst ` set dict_f)"
    using sub by (intro card_mono) auto
  then have "sub_total_visible (subsections_quality_of dict_t)
      \<le> sub_total_visible (subsections_quality_of dict_f)"
    by (simp add: sub_total_visible_card [OF run_t] sub_total_visible_card [OF run_f])
  with run_t q_f show ?thesis
    by (simp add: subsections_quality_def)
qed

theorem exclude_graded_never_adds_subsections_witness:
  "get_bool_param (demo_request ''staff'' [(''exclude_graded'', ''true'')]) ''exclude_graded'' False
   \<and> \<not> get_bool_param (demo_request ''staff'' []) ''exclude_graded'' False
   \<and> (\<exists>q_t q_f.
         subsections_quality demo_store demo_course
           (demo_request ''staff'' [(''exclude_graded'', ''true'')]) = Inr q_t
       \<and> subsections_quality demo_store demo_course (demo_request ''staff'' []) = Inr q_f
       \<and> sub_total_visible q_f = 3 \<and> sub_total_visible q_t \<le> sub_total_visible q_f)"
proof -
  have t: "get_bool_param (demo_request ''staff'' [(''exclude_graded'', ''true'')])
      ''exclude_graded'' False"
    by code_simp
  have f: "\<not> get_bool_param (demo_request ''staff'' []) ''exclude_graded'' False"
    by code_simp
  have "(case subsections_quality demo_store demo_course (demo_request ''staff'' []) of
           Inr q \<Rightarrow> sub_total_visible q = 3
         | Inl e \<Rightarrow> False)"
    by code_simp
  then obtain q_f where
    run: "subsections_quality demo_store demo_course (demo_request ''staff'' []) = Inr q_f"
    and n: "sub_total_visible q_f = 3"
    by (auto split: sum.splits)
  from exclude_graded_never_adds_subsections [OF t f run] run n t f show ?thesis
    by blast
qed




end
